theory Spec2Isabelle
  imports Complex_Main "HOL-Library.Log_Nat" "HOL-Library.Multiset"
begin

section \<open>JavaScript numbers\<close>

text \<open>
  The standings engine of \<^verbatim>\<open>TournamentWorkspace\<close> computes with JavaScript numbers.
  Runs, wickets and match counters are integers: result entry writes what \<^verbatim>\<open>parseInt\<close>
  returns, after limiting runs to 9999 and wickets to 10, and the counters count matches.
  They are modelled as \<^typ>\<open>int\<close>; they stay far below \<open>2^53\<close>, where doubles are exact.
  Points, overs volumes and rates are doubles that need not be whole: the creation form
  stores \<^verbatim>\<open>Number(value)\<close> of what is typed as points for a win, a draw and a loss. They
  are modelled as the rationals that doubles denote, and every arithmetic operation that
  produces one is followed by \<open>rd\<close>, rounding to the nearest number with a 53-bit
  significand, ties to even. The exponent range is not bounded (no overflow to Infinity,
  no subnormals, no NaN): the engine's values are tiny.
\<close>

definition flog2 :: "rat \<Rightarrow> int" where
  \<comment> \<open>\<open>\<lfloor>log\<^sub>2 q\<rfloor>\<close> for \<open>q > 0\<close>\<close>
  "flog2 q = (if 1 \<le> q then bitlen \<lfloor>q\<rfloor> - 1 else - bitlen (\<lceil>1 / q\<rceil> - 1))"

definition round_half_even :: "rat \<Rightarrow> int" where
  "round_half_even m = (let n = \<lfloor>m\<rfloor>; r = m - of_int n in
     if r < 1 / 2 then n else if 1 / 2 < r then n + 1 else if even n then n else n + 1)"

definition rd :: "rat \<Rightarrow> rat" where
  "rd q = (if q = 0 then 0 else
     (let e = flog2 \<bar>q\<bar> - 52;
          n = round_half_even (\<bar>q\<bar> / 2 powi e)
      in (if q < 0 then - of_int n else of_int n) * 2 powi e))"

subsection \<open>\<^verbatim>\<open>parseInt\<close> and \<^verbatim>\<open>parseFloat\<close>\<close>

definition is_ws :: "char \<Rightarrow> bool" where
  "is_ws c \<longleftrightarrow> c \<in> set [CHR '' '', CHR 0x09, CHR 0x0A, CHR 0x0B, CHR 0x0C, CHR 0x0D]"

definition is_digit :: "char \<Rightarrow> bool" where
  "is_digit c \<longleftrightarrow> c \<in> set ''0123456789''"

definition is_hex_digit :: "char \<Rightarrow> bool" where
  "is_hex_digit c \<longleftrightarrow> c \<in> set ''0123456789abcdefABCDEF''"

definition digit_val :: "char \<Rightarrow> int" where
  "digit_val c =
     (if is_digit c then of_char c - 48
      else if c \<in> set ''abcdef'' then of_char c - 87
      else of_char c - 55)"

definition digits_val :: "int \<Rightarrow> string \<Rightarrow> int" where
  "digits_val radix ds = foldl (\<lambda>n c. n * radix + digit_val c) 0 ds"

definition strip_sign :: "string \<Rightarrow> bool \<times> string" where
  "strip_sign s =
     (if take 1 s = ''-'' then (True, drop 1 s)
      else if take 1 s = ''+'' then (False, drop 1 s)
      else (False, s))"

definition parseInt :: "string \<Rightarrow> int option" where
  \<comment> \<open>\<^verbatim>\<open>parseInt(s)\<close> without a radix argument; \<open>None\<close> is NaN\<close>
  "parseInt s =
     (case strip_sign (dropWhile is_ws s) of (neg, s1) \<Rightarrow>
        (let hex = (take 2 s1 = ''0x'' \<or> take 2 s1 = ''0X'');
             z = (if hex then takeWhile is_hex_digit (drop 2 s1) else takeWhile is_digit s1);
             v = digits_val (if hex then 16 else 10) z
         in if z = [] then None else Some (if neg then - v else v)))"

definition exponent_part :: "string \<Rightarrow> int" where
  "exponent_part r =
     (if take 1 r = ''e'' \<or> take 1 r = ''E'' then
        (case strip_sign (drop 1 r) of (neg, r') \<Rightarrow>
           (let ds = takeWhile is_digit r'; v = digits_val 10 ds
            in if ds = [] then 0 else if neg then - v else v))
      else 0)"

definition parseFloat :: "string \<Rightarrow> rat option" where
  \<comment> \<open>the longest prefix that is a decimal literal, rounded to a double; \<open>None\<close> is NaN.
      The literal \<^verbatim>\<open>Infinity\<close> has no rational value and is read as NaN here.\<close>
  "parseFloat s =
     (case strip_sign (dropWhile is_ws s) of (neg, s1) \<Rightarrow>
        (let ip = takeWhile is_digit s1;
             r1 = dropWhile is_digit s1;
             dot = (take 1 r1 = ''.'');
             fp = (if dot then takeWhile is_digit (drop 1 r1) else []);
             r2 = (if dot then dropWhile is_digit (drop 1 r1) else r1);
             v = of_int (digits_val 10 (ip @ fp)) / 10 ^ length fp * 10 powi exponent_part r2
         in if ip = [] \<and> fp = [] then None else Some (rd (if neg then - v else v))))"

definition or0 :: "int option \<Rightarrow> int" where
  \<comment> \<open>\<^verbatim>\<open>x || 0\<close> on an optional or NaN-able integer\<close>
  "or0 x = (case x of None \<Rightarrow> 0 | Some v \<Rightarrow> v)"

section \<open>Data model (\<^verbatim>\<open>types.ts\<close>)\<close>

text \<open>
  Only the fields the engine reads or writes are kept. A team's logo, owner, form list and
  series, bonus and penalty counters are copied by the spread \<^verbatim>\<open>...t\<close> and never read;
  a match's round, series, venue and notes are never read by the engine either, and the
  tournament's audit log is only appended to.
\<close>

datatype MatchStatus = NOT_STARTED | IN_PROGRESS | COMPLETED

datatype MatchResultType = T1_WIN | T2_WIN | DRAW | TIE | NO_RESULT | ABANDONED

record Team =
  team_id :: string
  team_name :: string

record Match =
  match_id :: string
  team1Id :: string
  team2Id :: string
  status :: MatchStatus
  winnerId :: "string option"
  resultType :: "MatchResultType option"
  t1Runs :: "int option"
  t1Wickets :: "int option"
  t1OversWhole :: "int option"
  t1Balls :: "int option"
  t2Runs :: "int option"
  t2Wickets :: "int option"
  t2OversWhole :: "int option"
  t2Balls :: "int option"

record TournamentConfig =
  oversPerMatch :: "string option"
  pointsForWin :: rat
  pointsForDraw :: rat
  pointsForLoss :: rat

record Tournament =
  teams :: "Team list"
  matches :: "Match list"
  config :: TournamentConfig
  isLocked :: bool

text \<open>An entry of \<^verbatim>\<open>stats\<close>: \<^verbatim>\<open>Team & { actualPoints, wicketsTaken, scoringRate, economyRate }\<close>.\<close>

record Standing =
  sid :: string
  sname :: string
  matchesPlayed :: int
  matchesWon :: int
  matchesLost :: int
  matchesDrawn :: int
  matchesTie :: int
  matchesNR :: int
  totalPoints :: int
  runsScored :: int
  oversFaced :: rat
  runsConceded :: int
  oversBowled :: rat
  nrr :: rat
  actualPoints :: rat
  wicketsTaken :: int
  scoringRate :: rat
  economyRate :: rat

record PointsConfig =
  win :: rat
  draw :: rat
  loss :: rat

record ResultForm =
  form_t1Runs :: string
  form_t1Wickets :: string
  form_t1OversWhole :: string
  form_t1Balls :: string
  form_t2Runs :: string
  form_t2Wickets :: string
  form_t2OversWhole :: string
  form_t2Balls :: string

section \<open>Team ids\<close>

text \<open>
  Teams are created in one place, the creation form. It builds the whole team list at
  once and gives the team at position \<open>i\<close> the id \<^verbatim>\<open>team-${i}-${Date.now()}\<close>; afterwards only
  names, logos and owners are edited, and the workspace never changes the team list.
  The team lists that reach the engine therefore carry the ids \<open>form_ids nows\<close>, where
  \<open>nows\<close> are the clock values read for team 0, 1, and so on.
\<close>

definition digit_char :: "int \<Rightarrow> char" where
  "digit_char d = ''0123456789'' ! nat d"

function dec :: "int \<Rightarrow> string" where
  \<comment> \<open>the decimal numeral that a template literal writes for a natural number\<close>
  "dec n = (if n < 10 then [digit_char n] else dec (n div 10) @ [digit_char (n mod 10)])"
  by pat_completeness auto
termination
  by (relation "measure nat") auto

declare dec.simps [simp del]

definition new_team_id :: "nat \<Rightarrow> int \<Rightarrow> string" where
  "new_team_id i now = ''team-'' @ dec (int i) @ ''-'' @ dec now"

definition form_ids :: "int list \<Rightarrow> string list" where
  "form_ids nows = map (\<lambda>(i, now). new_team_id i now) (enumerate 0 nows)"

section \<open>Objects keyed by strings\<close>

text \<open>
  \<^verbatim>\<open>stats\<close> is a \<^verbatim>\<open>Record<string, ...>\<close>. Its entries are kept as an association list in the
  order in which \<^verbatim>\<open>Object.values\<close> enumerates them: keys that are array indices (canonical
  decimal numerals below \<open>2^32 - 1\<close>) first, in ascending numeric order, then all other keys
  in the order of their first insertion. Assigning to an existing key keeps its place.
  Assigning to the key \<^verbatim>\<open>__proto__\<close> runs the setter inherited from \<^verbatim>\<open>Object.prototype\<close>:
  it replaces the prototype of the object and adds no property of its own, so that
  \<^verbatim>\<open>Object.values\<close> does not show the value.
  A lookup sees the object's own properties only. This is what the code does for the keys
  it looks up, the team ids of the matches: the schedule generator copies them from the
  team list, the ids of the team list are those of the creation form, and none of these is
  \<^verbatim>\<open>__proto__\<close> or the name of another member of \<^verbatim>\<open>Object.prototype\<close>.
\<close>

type_synonym stats = "(string \<times> Standing) list"

definition is_array_index :: "string \<Rightarrow> bool" where
  \<comment> \<open>a decimal numeral without leading zeros, below \<open>2^32 - 1\<close>\<close>
  "is_array_index k \<longleftrightarrow>
     list_all is_digit k \<and> (k = ''0'' \<or> list_ex (\<lambda>c. take 1 k = [c]) ''123456789'') \<and>
     digits_val 10 k < 4294967295"

fun insert_index :: "string \<Rightarrow> 'v \<Rightarrow> (string \<times> 'v) list \<Rightarrow> (string \<times> 'v) list" where
  "insert_index k v [] = [(k, v)]"
| "insert_index k v ((k', v') # rest) =
     (if is_array_index k' \<and> digits_val 10 k' < digits_val 10 k
      then (k', v') # insert_index k v rest
      else (k, v) # (k', v') # rest)"

definition obj_set :: "string \<Rightarrow> 'v \<Rightarrow> (string \<times> 'v) list \<Rightarrow> (string \<times> 'v) list" where
  \<comment> \<open>\<^verbatim>\<open>obj[k] = v\<close>\<close>
  "obj_set k v obj =
     (if k = ''__proto__'' then obj
      else if map_of obj k \<noteq> None then
        map (\<lambda>(k', v'). if k' = k then (k', v) else (k', v')) obj
      else if is_array_index k then insert_index k v obj
      else obj @ [(k, v)])"

fun modify :: "string \<Rightarrow> ('v \<Rightarrow> 'v) \<Rightarrow> (string \<times> 'v) list \<Rightarrow> (string \<times> 'v) list" where
  \<comment> \<open>an in-place update of the object stored under \<open>k\<close>, through a reference to it\<close>
  "modify k f [] = []"
| "modify k f ((k', v') # rest) =
     (if k' = k then (k', f v') else (k', v')) # modify k f rest"

fun exec :: "(string \<times> ('v \<Rightarrow> 'v)) list \<Rightarrow> (string \<times> 'v) list \<Rightarrow> (string \<times> 'v) list" where
  \<comment> \<open>a sequence of such updates, in program order\<close>
  "exec [] obj = obj"
| "exec ((k, f) # stmts) obj = exec stmts (modify k f obj)"

section \<open>The standings engine\<close>

definition isHundred :: "Tournament \<Rightarrow> bool" where
  "isHundred T \<longleftrightarrow> oversPerMatch (config T) = Some ''100 Balls''"

definition or_default :: "rat \<Rightarrow> rat \<Rightarrow> rat" where
  \<comment> \<open>\<^verbatim>\<open>x || d\<close> on a number: zero is falsy\<close>
  "or_default x d = (if x = 0 then d else x)"

definition pointsConfig :: "Tournament \<Rightarrow> PointsConfig" where
  "pointsConfig T =
     \<lparr> win = (if isHundred T then 4 else or_default (pointsForWin (config T)) 2),
       draw = (if isHundred T then 2 else or_default (pointsForDraw (config T)) 1),
       loss = (if isHundred T then 0 else or_default (pointsForLoss (config T)) 0) \<rparr>"

definition toDecimalOvers :: "int \<Rightarrow> int \<Rightarrow> rat" where
  "toDecimalOvers whole balls = rd (of_int whole + rd (of_int balls / 6))"

definition init_standing :: "Team \<Rightarrow> Standing" where
  "init_standing t =
     \<lparr> sid = team_id t, sname = team_name t,
       matchesPlayed = 0, matchesWon = 0, matchesLost = 0, matchesDrawn = 0, matchesTie = 0,
       matchesNR = 0, totalPoints = 0, runsScored = 0, oversFaced = 0, runsConceded = 0,
       oversBowled = 0, nrr = 0, actualPoints = 0, wicketsTaken = 0, scoringRate = 0,
       economyRate = 0 \<rparr>"

fun init_from :: "stats \<Rightarrow> Team list \<Rightarrow> stats" where
  \<comment> \<open>\<^verbatim>\<open>tournament.teams.forEach(t => { stats[t.id] = {...} })\<close>\<close>
  "init_from obj [] = obj"
| "init_from obj (t # ts) = init_from (obj_set (team_id t) (init_standing t) obj) ts"

definition init_stats :: "Team list \<Rightarrow> stats" where
  "init_stats ts = init_from [] ts"

definition maxOvers :: "Tournament \<Rightarrow> rat" where
  "maxOvers T =
     (if isHundred T then 100
      else (case parseFloat (case oversPerMatch (config T) of None \<Rightarrow> ''20''
                             | Some s \<Rightarrow> if s = [] then ''20'' else s) of
              None \<Rightarrow> 20
            | Some v \<Rightarrow> if v = 0 then 20 else v))"

definition t1VolFaced :: "Tournament \<Rightarrow> Match \<Rightarrow> rat" where
  "t1VolFaced T m =
     (if isHundred T then (if t1Wickets m = Some 10 then 100 else of_int (or0 (t1OversWhole m)))
      else (if t1Wickets m = Some 10 then maxOvers T
            else toDecimalOvers (or0 (t1OversWhole m)) (or0 (t1Balls m))))"

definition t2VolFaced :: "Tournament \<Rightarrow> Match \<Rightarrow> rat" where
  "t2VolFaced T m =
     (if isHundred T then (if t2Wickets m = Some 10 then 100 else of_int (or0 (t2OversWhole m)))
      else (if t2Wickets m = Some 10 then maxOvers T
            else toDecimalOvers (or0 (t2OversWhole m)) (or0 (t2Balls m))))"

text \<open>The field updates of the aggregation loop, one function per statement form.\<close>

definition inc_matchesPlayed :: "Standing \<Rightarrow> Standing" where
  "inc_matchesPlayed s = s\<lparr>matchesPlayed := matchesPlayed s + 1\<rparr>"

definition inc_matchesWon :: "Standing \<Rightarrow> Standing" where
  "inc_matchesWon s = s\<lparr>matchesWon := matchesWon s + 1\<rparr>"

definition add_actualPoints :: "rat \<Rightarrow> Standing \<Rightarrow> Standing" where
  "add_actualPoints p s = s\<lparr>actualPoints := rd (actualPoints s + p)\<rparr>"

definition add_runsScored :: "int \<Rightarrow> Standing \<Rightarrow> Standing" where
  "add_runsScored r s = s\<lparr>runsScored := runsScored s + r\<rparr>"

definition add_oversFaced :: "rat \<Rightarrow> Standing \<Rightarrow> Standing" where
  "add_oversFaced v s = s\<lparr>oversFaced := rd (oversFaced s + v)\<rparr>"

definition add_runsConceded :: "int \<Rightarrow> Standing \<Rightarrow> Standing" where
  "add_runsConceded r s = s\<lparr>runsConceded := runsConceded s + r\<rparr>"

definition add_oversBowled :: "rat \<Rightarrow> Standing \<Rightarrow> Standing" where
  "add_oversBowled v s = s\<lparr>oversBowled := rd (oversBowled s + v)\<rparr>"

definition add_wicketsTaken :: "int \<Rightarrow> Standing \<Rightarrow> Standing" where
  "add_wicketsTaken w s = s\<lparr>wicketsTaken := wicketsTaken s + w\<rparr>"

definition match_stmts :: "Tournament \<Rightarrow> Match \<Rightarrow> (string \<times> (Standing \<Rightarrow> Standing)) list" where
  \<comment> \<open>the body of the loop over completed matches, after the guard; \<open>t1\<close> and \<open>t2\<close> are
      references into \<^verbatim>\<open>stats\<close>, so each statement updates the entry under that key\<close>
  "match_stmts T m =
     (let t1 = team1Id m; t2 = team2Id m; pc = pointsConfig T;
          v1 = t1VolFaced T m; v2 = t2VolFaced T m in
      [(t1, inc_matchesPlayed), (t2, inc_matchesPlayed)] @
      (if resultType m = Some T1_WIN then
         [(t1, inc_matchesWon), (t1, add_actualPoints (win pc)), (t2, add_actualPoints (loss pc))]
       else if resultType m = Some T2_WIN then
         [(t2, inc_matchesWon), (t2, add_actualPoints (win pc)), (t1, add_actualPoints (loss pc))]
       else
         [(t1, add_actualPoints (draw pc)), (t2, add_actualPoints (draw pc))]) @
      [(t1, add_runsScored (or0 (t1Runs m))), (t1, add_oversFaced v1),
       (t1, add_runsConceded (or0 (t2Runs m))), (t1, add_oversBowled v2),
       (t2, add_runsScored (or0 (t2Runs m))), (t2, add_oversFaced v2),
       (t2, add_runsConceded (or0 (t1Runs m))), (t2, add_oversBowled v1),
       (t1, add_wicketsTaken (or0 (t2Wickets m))), (t2, add_wicketsTaken (or0 (t1Wickets m)))])"

definition apply_match :: "Tournament \<Rightarrow> Match \<Rightarrow> stats \<Rightarrow> stats" where
  "apply_match T m st =
     (if map_of st (team1Id m) = None \<or> map_of st (team2Id m) = None then st
      else exec (match_stmts T m) st)"

definition rates :: "Standing \<Rightarrow> Standing" where
  "rates s =
     (let rrS = (if oversFaced s > 0 then rd (of_int (runsScored s) / oversFaced s) else 0);
          rrC = (if oversBowled s > 0 then rd (of_int (runsConceded s) / oversBowled s) else 0)
      in s\<lparr>nrr := rd (rrS - rrC), scoringRate := rrS, economyRate := rrC\<rparr>)"

fun run_matches :: "Tournament \<Rightarrow> stats \<Rightarrow> Match list \<Rightarrow> stats" where
  \<comment> \<open>the \<^verbatim>\<open>forEach\<close> over the completed matches\<close>
  "run_matches T st [] = st"
| "run_matches T st (m # ms) = run_matches T (apply_match T m st) ms"

definition aggregate :: "Tournament \<Rightarrow> stats" where
  "aggregate T =
     run_matches T (init_stats (teams T)) (filter (\<lambda>m. status m = COMPLETED) (matches T))"

definition standingsMap :: "Tournament \<Rightarrow> stats" where
  \<comment> \<open>after the loop, every entry gets its rates\<close>
  "standingsMap T = map (apsnd rates) (aggregate T)"

subsection \<open>Ranking\<close>

definition compare_standings :: "Standing \<Rightarrow> Standing \<Rightarrow> rat" where
  \<comment> \<open>the comparator passed to \<^verbatim>\<open>sort\<close>; \<^verbatim>\<open>nrr || 0\<close> is \<^verbatim>\<open>nrr\<close> on every number\<close>
  "compare_standings a b =
     (if actualPoints b \<noteq> actualPoints a then rd (actualPoints b - actualPoints a)
      else if nrr b \<noteq> nrr a then rd (nrr b - nrr a)
      else rd (scoringRate b - scoringRate a))"

fun insert_by :: "('a \<Rightarrow> 'a \<Rightarrow> rat) \<Rightarrow> 'a \<Rightarrow> 'a list \<Rightarrow> 'a list" where
  "insert_by cmp x [] = [x]"
| "insert_by cmp x (y # ys) =
     (if cmp x y \<le> 0 then x # y # ys else y # insert_by cmp x ys)"

definition js_sort :: "('a \<Rightarrow> 'a \<Rightarrow> rat) \<Rightarrow> 'a list \<Rightarrow> 'a list" where
  \<comment> \<open>\<^verbatim>\<open>Array.prototype.sort\<close> is stable, and the comparator used here is a consistent
      ordering: the result is the one list in which an element stands behind another only
      if the comparator is positive on them or it stood behind before. Computed by
      insertion from the right.\<close>
  "js_sort cmp xs = foldr (insert_by cmp) xs []"

definition standings :: "Tournament \<Rightarrow> Standing list" where
  "standings T = js_sort compare_standings (map snd (standingsMap T))"

definition tieFlags :: "Standing list \<Rightarrow> bool list" where
  \<comment> \<open>the TIE badge of the leaderboard snapshot, one per row of \<^verbatim>\<open>standings.slice(0, 4)\<close>\<close>
  "tieFlags sts =
     map (\<lambda>(i, s). list_ex (\<lambda>(idx, other). idx \<noteq> i \<and> actualPoints other = actualPoints s)
                     (enumerate 0 sts))
       (enumerate 0 (take 4 sts))"

section \<open>Result entry\<close>

definition handleSaveResult :: "Tournament \<Rightarrow> ResultForm \<Rightarrow> string \<Rightarrow> Tournament option" where
  \<comment> \<open>\<open>None\<close>: the engine is locked or the match is unknown, and nothing is updated\<close>
  "handleSaveResult T form matchId =
     (if isLocked T then None
      else (case find (\<lambda>m. match_id m = matchId) (matches T) of
              None \<Rightarrow> None
            | Some m \<Rightarrow>
               (let t1R = or0 (parseInt (form_t1Runs form));
                    t2R = or0 (parseInt (form_t2Runs form));
                    type = (if t1R > t2R then T1_WIN else if t2R > t1R then T2_WIN else TIE);
                    winner = (if t1R > t2R then Some (team1Id m)
                              else if t2R > t1R then Some (team2Id m) else None)
                in Some (T\<lparr>matches := map (\<lambda>match.
                     if match_id match = matchId then
                       match\<lparr>status := COMPLETED,
                         t1Runs := Some t1R,
                         t1Wickets := Some (or0 (parseInt (form_t1Wickets form))),
                         t1OversWhole := Some (or0 (parseInt (form_t1OversWhole form))),
                         t1Balls := Some (or0 (parseInt (form_t1Balls form))),
                         t2Runs := Some t2R,
                         t2Wickets := Some (or0 (parseInt (form_t2Wickets form))),
                         t2OversWhole := Some (or0 (parseInt (form_t2OversWhole form))),
                         t2Balls := Some (or0 (parseInt (form_t2Balls form))),
                         resultType := Some type, winnerId := winner\<rparr>
                     else match) (matches T)\<rparr>))))"

section \<open>Auxiliary notions\<close>

text \<open>Notions used to state and prove properties of the engine; none of them is code.\<close>

definition run :: "('v \<Rightarrow> 'v) list \<Rightarrow> 'v \<Rightarrow> 'v" where
  \<comment> \<open>the updates \<open>fs\<close> applied one after the other\<close>
  "run fs v = fold (\<lambda>f. f) fs v"

definition updaters_for :: "string \<Rightarrow> (string \<times> ('v \<Rightarrow> 'v)) list \<Rightarrow> ('v \<Rightarrow> 'v) list" where
  \<comment> \<open>the updates that a statement list addresses to the entry under \<open>k\<close>\<close>
  "updaters_for k stmts = map snd (filter (\<lambda>(k', f). k' = k) stmts)"

definition known :: "stats \<Rightarrow> Match \<Rightarrow> bool" where
  \<comment> \<open>both teams of the match have an entry: the match passes the guard of the loop\<close>
  "known st m \<longleftrightarrow> team1Id m \<in> set (map fst st) \<and> team2Id m \<in> set (map fst st)"

definition all_stmts :: "Tournament \<Rightarrow> (string \<times> (Standing \<Rightarrow> Standing)) list" where
  \<comment> \<open>every statement the aggregation loop executes, in order\<close>
  "all_stmts T = concat (map (match_stmts T)
     (filter (known (init_stats (teams T))) (filter (\<lambda>m. status m = COMPLETED) (matches T))))"

definition exact_part :: "Standing \<Rightarrow> Standing" where
  \<comment> \<open>a standing without the fields that hold doubles: the team and the integer totals\<close>
  "exact_part s = s\<lparr>oversFaced := 0, oversBowled := 0, nrr := 0, actualPoints := 0,
     scoringRate := 0, economyRate := 0\<rparr>"

definition with_points :: "Standing \<Rightarrow> Standing" where
  \<comment> \<open>the team, the integer totals and the points\<close>
  "with_points s = s\<lparr>oversFaced := 0, oversBowled := 0, nrr := 0, scoringRate := 0,
     economyRate := 0\<rparr>"

definition add_totals :: "int \<times> int \<times> int \<times> int \<times> int \<Rightarrow> Standing \<Rightarrow> Standing" where
  \<comment> \<open>increments of played, won, runs scored, runs conceded and wickets taken\<close>
  "add_totals d s = (case d of (p, w, r, c, wk) \<Rightarrow>
     s\<lparr>matchesPlayed := matchesPlayed s + p, matchesWon := matchesWon s + w,
       runsScored := runsScored s + r,
       runsConceded := runsConceded s + c, wicketsTaken := wicketsTaken s + wk\<rparr>)"

definition additive :: "(Standing \<Rightarrow> Standing) \<Rightarrow> bool" where
  \<comment> \<open>on the exact part, the update adds fixed increments\<close>
  "additive f \<longleftrightarrow> (\<exists>d. \<forall>s. exact_part (f s) = add_totals d (exact_part s))"

definition points_for :: "Tournament \<Rightarrow> Match \<Rightarrow> string \<Rightarrow> rat list" where
  \<comment> \<open>the points that the statements of a match add to the entry under \<open>k\<close>, in order\<close>
  "points_for T m k =
     (let pc = pointsConfig T in
      if resultType m = Some T1_WIN then
        (if k = team1Id m then [win pc] else []) @ (if k = team2Id m then [loss pc] else [])
      else if resultType m = Some T2_WIN then
        (if k = team2Id m then [win pc] else []) @ (if k = team1Id m then [loss pc] else [])
      else
        (if k = team1Id m then [draw pc] else []) @ (if k = team2Id m then [draw pc] else []))"

definition faced_for :: "Tournament \<Rightarrow> Match \<Rightarrow> string \<Rightarrow> rat list" where
  \<comment> \<open>the volumes that they add to its overs faced\<close>
  "faced_for T m k =
     (if k = team1Id m then [t1VolFaced T m] else []) @
     (if k = team2Id m then [t2VolFaced T m] else [])"

definition bowled_for :: "Tournament \<Rightarrow> Match \<Rightarrow> string \<Rightarrow> rat list" where
  \<comment> \<open>the volumes that they add to its overs bowled\<close>
  "bowled_for T m k =
     (if k = team1Id m then [t2VolFaced T m] else []) @
     (if k = team2Id m then [t1VolFaced T m] else [])"

definition add_all :: "rat \<Rightarrow> rat list \<Rightarrow> rat" where
  \<comment> \<open>a running total in double arithmetic\<close>
  "add_all x ps = foldl (\<lambda>x p. rd (x + p)) x ps"

definition is_whole :: "rat \<Rightarrow> bool" where
  "is_whole x \<longleftrightarrow> of_int \<lfloor>x\<rfloor> = x"

definition whole_points :: "Tournament \<Rightarrow> bool" where
  \<comment> \<open>the points in force are whole numbers, small enough for every total of the
      tournament to stay below \<open>2^53\<close>; a match adds points to a team at most twice\<close>
  "whole_points T \<longleftrightarrow>
     is_whole (win (pointsConfig T)) \<and> is_whole (draw (pointsConfig T)) \<and>
     is_whole (loss (pointsConfig T)) \<and>
     max \<bar>win (pointsConfig T)\<bar> (max \<bar>draw (pointsConfig T)\<bar> \<bar>loss (pointsConfig T)\<bar>)
       * of_nat (2 * length (matches T)) < 2 ^ 53"

definition whole_overs :: "Tournament \<Rightarrow> rat \<Rightarrow> bool" where
  \<comment> \<open>the overs volumes of all matches are whole numbers of absolute value at most \<open>b\<close>,
      small enough for every total to stay below \<open>2^53\<close>\<close>
  "whole_overs T b \<longleftrightarrow>
     list_all (\<lambda>m. is_whole (t1VolFaced T m) \<and> is_whole (t2VolFaced T m) \<and>
                   \<bar>t1VolFaced T m\<bar> \<le> b \<and> \<bar>t2VolFaced T m\<bar> \<le> b) (matches T) \<and>
     b * of_nat (2 * length (matches T)) < 2 ^ 53"

definition tie_flagged :: "Tournament \<Rightarrow> string \<Rightarrow> bool" where
  \<comment> \<open>the row of team \<open>k\<close> is drawn with the TIE badge\<close>
  "tie_flagged T k \<longleftrightarrow>
     list_ex (\<lambda>(s, flag). sid s = k \<and> flag) (zip (standings T) (tieFlags (standings T)))"

definition rank_key :: "Standing \<Rightarrow> rat \<times> rat \<times> rat" where
  \<comment> \<open>the three levels of the comparator\<close>
  "rank_key s = (actualPoints s, nrr s, scoringRate s)"

definition rank_ge :: "Standing \<Rightarrow> Standing \<Rightarrow> bool" where
  \<comment> \<open>\<open>a\<close> may stand before \<open>b\<close>: descending by points, then net run rate, then scoring rate\<close>
  "rank_ge a b \<longleftrightarrow>
     actualPoints b < actualPoints a \<or>
     (actualPoints a = actualPoints b \<and>
       (nrr b < nrr a \<or> (nrr a = nrr b \<and> scoringRate b \<le> scoringRate a)))"

section \<open>Example tournaments\<close>

definition teamA :: Team where
  "teamA = \<lparr> team_id = ''team-0-1700000000000'', team_name = ''A'' \<rparr>"

definition teamB :: Team where
  "teamB = \<lparr> team_id = ''team-1-1700000000000'', team_name = ''B'' \<rparr>"

definition fixture :: "string \<Rightarrow> Team \<Rightarrow> Team \<Rightarrow> Match" where
  \<comment> \<open>a match as the schedule generator creates it\<close>
  "fixture mid a b =
     \<lparr> match_id = mid, team1Id = team_id a, team2Id = team_id b, status = NOT_STARTED,
       winnerId = None, resultType = None,
       t1Runs = None, t1Wickets = None, t1OversWhole = None, t1Balls = None,
       t2Runs = None, t2Wickets = None, t2OversWhole = None, t2Balls = None \<rparr>"

definition result :: "string \<Rightarrow> Team \<Rightarrow> Team \<Rightarrow> int \<times> int \<times> int \<times> int \<Rightarrow> int \<times> int \<times> int \<times> int \<Rightarrow> Match" where
  \<comment> \<open>a completed match as result entry writes it; an innings is (runs, wickets, overs, balls)\<close>
  "result mid a b i1 i2 =
     (case (i1, i2) of ((r1, w1, o1, b1), (r2, w2, o2, b2)) \<Rightarrow>
        \<lparr> match_id = mid, team1Id = team_id a, team2Id = team_id b, status = COMPLETED,
          winnerId = (if r2 < r1 then Some (team_id a) else if r1 < r2 then Some (team_id b)
                      else None),
          resultType = Some (if r2 < r1 then T1_WIN else if r1 < r2 then T2_WIN else TIE),
          t1Runs = Some r1, t1Wickets = Some w1, t1OversWhole = Some o1, t1Balls = Some b1,
          t2Runs = Some r2, t2Wickets = Some w2, t2OversWhole = Some o2, t2Balls = Some b2 \<rparr>)"

definition league :: "string \<Rightarrow> rat \<Rightarrow> rat \<Rightarrow> rat \<Rightarrow> Match list \<Rightarrow> Tournament" where
  \<comment> \<open>teams A and B, with the given overs setting, win/draw/loss points and matches\<close>
  "league overs w d l ms =
     \<lparr> teams = [teamA, teamB], matches = ms,
       config = \<lparr> oversPerMatch = Some overs, pointsForWin = w, pointsForDraw = d,
                  pointsForLoss = l \<rparr>,
       isLocked = False \<rparr>"

definition form_180_150 :: ResultForm where
  "form_180_150 =
     \<lparr> form_t1Runs = ''180'', form_t1Wickets = ''6'', form_t1OversWhole = ''20'',
       form_t1Balls = ''0'',
       form_t2Runs = ''150'', form_t2Wickets = ''10'', form_t2OversWhole = ''18'',
       form_t2Balls = ''3'' \<rparr>"

definition played_180_150 :: Match where
  "played_180_150 = result ''M-1'' teamA teamB (180, 6, 20, 0) (150, 10, 18, 3)"

text \<open>One win each, by different margins.\<close>

definition one_all :: Tournament where
  "one_all = league ''20'' 2 1 0
     [played_180_150, result ''M-2'' teamB teamA (160, 5, 20, 0) (140, 9, 20, 0)]"

text \<open>A hundred-ball match: B makes 120/8 from 100 balls, A gets there after 85 balls.\<close>

definition hundred_chase :: Match where
  "hundred_chase = result ''M-1'' teamB teamA (120, 8, 100, 0) (121, 3, 85, 0)"

text \<open>A third team that has not played yet.\<close>

definition teamC :: Team where
  "teamC = \<lparr> team_id = ''team-2-1700000000000'', team_name = ''C'' \<rparr>"

definition trio :: Tournament where
  "trio =
     \<lparr> teams = [teamA, teamB, teamC],
       matches = [played_180_150, fixture ''M-2'' teamA teamC],
       config = \<lparr> oversPerMatch = Some ''20'', pointsForWin = 2, pointsForDraw = 1,
                  pointsForLoss = 0 \<rparr>,
       isLocked = False \<rparr>"

text \<open>
  A and B each chase down the same three totals of C, in 17.1, 19.3 and 18.1 overs; B's
  second and third chase are listed in the other order.
\<close>

definition game_1 :: "Team \<Rightarrow> string \<Rightarrow> Match" where
  "game_1 t mid = result mid teamC t (150, 7, 20, 0) (151, 4, 17, 1)"

definition game_2 :: "Team \<Rightarrow> string \<Rightarrow> Match" where
  "game_2 t mid = result mid teamC t (168, 8, 20, 0) (172, 5, 19, 3)"

definition game_3 :: "Team \<Rightarrow> string \<Rightarrow> Match" where
  "game_3 t mid = result mid teamC t (149, 9, 20, 0) (155, 3, 18, 1)"

definition season :: Tournament where
  "season =
     \<lparr> teams = [teamA, teamB, teamC],
       matches = [game_1 teamA ''M-1'', game_2 teamA ''M-2'', game_3 teamA ''M-3'',
                  game_1 teamB ''M-4'', game_3 teamB ''M-6'', game_2 teamB ''M-5''],
       config = \<lparr> oversPerMatch = Some ''20'', pointsForWin = 2, pointsForDraw = 1,
                  pointsForLoss = 0 \<rparr>,
       isLocked = False \<rparr>"

definition reordered :: "Match list" where
  \<comment> \<open>the matches of \<open>season\<close> in another order\<close>
  "reordered = [game_1 teamA ''M-1'', game_3 teamA ''M-3'', game_2 teamA ''M-2'',
                game_1 teamB ''M-4'', game_2 teamB ''M-5'', game_3 teamB ''M-6'']"

text \<open>
  One point for a win and 0.1 for a draw (the double nearest to it): A beats B twice and
  ties with B three times.
\<close>

definition tenth :: rat where
  "tenth = 3602879701896397 / 36028797018963968"

definition a_win :: "string \<Rightarrow> Match" where
  "a_win mid = result mid teamA teamB (160, 5, 20, 0) (140, 9, 20, 0)"

definition a_tie :: "string \<Rightarrow> Match" where
  "a_tie mid = result mid teamA teamB (150, 6, 20, 0) (150, 8, 20, 0)"

definition wins_first :: Tournament where
  "wins_first = league ''20'' 1 tenth 0
     [a_win ''M-1'', a_win ''M-2'', a_tie ''M-3'', a_tie ''M-4'', a_tie ''M-5'']"

definition ties_first :: "Match list" where
  \<comment> \<open>the matches of \<open>wins_first\<close> in another order\<close>
  "ties_first = [a_tie ''M-3'', a_tie ''M-4'', a_tie ''M-5'', a_win ''M-1'', a_win ''M-2'']"

text \<open>A new tournament of eight teams, the number the creation form proposes.\<close>

definition eight :: Tournament where
  "eight =
     \<lparr> teams = map (\<lambda>(k, n). \<lparr> team_id = k, team_name = n \<rparr>)
         (zip (form_ids (replicate 8 1700000000000))
            [''A'', ''B'', ''C'', ''D'', ''E'', ''F'', ''G'', ''H'']),
       matches = [],
       config = \<lparr> oversPerMatch = Some ''20'', pointsForWin = 2, pointsForDraw = 1,
                  pointsForLoss = 0 \<rparr>,
       isLocked = False \<rparr>"

section \<open>Objects\<close>

lemma keys_modify [simp]: "map fst (modify k f obj) = map fst obj"
  by (induction obj) auto

lemma keys_exec [simp]: "map fst (exec stmts obj) = map fst obj"
  by (induction stmts obj rule: exec.induct) auto

lemma exec_append: "exec (xs @ ys) obj = exec ys (exec xs obj)"
  by (induction xs obj rule: exec.induct) auto

lemma run_Nil [simp]: "run [] v = v"
  by (simp add: run_def)

lemma run_Cons [simp]: "run (f # fs) v = run fs (f v)"
  by (simp add: run_def)

lemma run_append: "run (fs @ gs) v = run gs (run fs v)"
  by (simp add: run_def)

lemma modify_entries:
  "modify k f obj = map (\<lambda>(k', v). (k', if k' = k then f v else v)) obj"
  by (induction obj) auto

lemma exec_entries:
  "exec stmts obj = map (\<lambda>(k, v). (k, run (updaters_for k stmts) v)) obj"
proof (induction stmts obj rule: exec.induct)
  case (1 obj)
  then show ?case by (simp add: updaters_for_def)
next
  case (2 k f stmts obj)
  have "map (\<lambda>(k', v). (k', run (updaters_for k' stmts) v)) (modify k f obj)
          = map (\<lambda>(k', v). (k', run (updaters_for k' ((k, f) # stmts)) v)) obj"
    by (induction obj) (auto simp: updaters_for_def)
  then show ?case by (simp add: "2.IH")
qed

lemma map_of_None_keys: "map_of obj k = None \<longleftrightarrow> k \<notin> set (map fst obj)"
  by (simp add: map_of_eq_None_iff)

lemma apply_match_exec:
  "apply_match T m st = (if known st m then exec (match_stmts T m) st else st)"
  by (auto simp: apply_match_def known_def map_of_None_keys)

lemma known_exec [simp]: "known (exec stmts st) m = known st m"
  by (simp add: known_def)

lemma run_matches_exec:
  "run_matches T st ms = exec (concat (map (match_stmts T) (filter (known st) ms))) st"
proof (induction ms arbitrary: st)
  case Nil
  then show ?case by simp
next
  case (Cons m ms)
  have k: "known (apply_match T m st) = known st"
    by (rule ext) (simp add: apply_match_exec)
  show ?case
    by (simp add: Cons.IH k) (simp add: apply_match_exec exec_append)
qed

lemma aggregate_exec: "aggregate T = exec (all_stmts T) (init_stats (teams T))"
  by (simp add: aggregate_def all_stmts_def run_matches_exec)

lemma standingsMap_entries:
  "standingsMap T =
     map (\<lambda>(k, s). (k, rates (run (updaters_for k (all_stmts T)) s))) (init_stats (teams T))"
  by (simp add: standingsMap_def aggregate_exec exec_entries apsnd_def map_prod_def case_prod_beta)

lemma keys_standingsMap: "map fst (standingsMap T) = map fst (init_stats (teams T))"
  by (simp add: standingsMap_entries case_prod_beta)

subsection \<open>Keys of the initial object\<close>

lemma entries_insert_index: "set (insert_index k v obj) = insert (k, v) (set obj)"
  by (induction k v obj rule: insert_index.induct) (auto split: if_splits)

lemma keys_insert_index:
  "set (map fst (insert_index k v obj)) = insert k (set (map fst obj))"
  by (simp add: entries_insert_index)

lemma distinct_insert_index:
  "k \<notin> set (map fst obj) \<Longrightarrow> distinct (map fst obj) \<Longrightarrow>
     distinct (map fst (insert_index k v obj))"
proof (induction obj)
  case Nil
  then show ?case by simp
next
  case (Cons a obj)
  obtain k' v' where a: "a = (k', v')" by (cases a)
  have "k' \<notin> set (map fst (insert_index k v obj))"
    using Cons.prems unfolding keys_insert_index a by auto
  then show ?case using Cons by (auto simp: a)
qed

lemma keys_replace:
  "map fst (map (\<lambda>(k', v'). if k' = k then (k', v) else (k', v')) obj) = map fst obj"
  by (induction obj) auto

lemma keys_obj_set:
  "set (map fst (obj_set k v obj)) =
     (if k = ''__proto__'' then set (map fst obj) else insert k (set (map fst obj)))"
  by (auto simp: obj_set_def keys_insert_index keys_replace map_of_None_keys
      simp del: map_map set_map)

lemma distinct_obj_set:
  "distinct (map fst obj) \<Longrightarrow> distinct (map fst (obj_set k v obj))"
  by (auto simp: obj_set_def keys_replace distinct_insert_index map_of_None_keys
      simp del: map_map set_map)

lemma entries_obj_set: "set (obj_set k v obj) \<subseteq> insert (k, v) (set obj)"
  by (auto simp: obj_set_def entries_insert_index split: if_splits)

lemma keys_init_from:
  "set (map fst (init_from obj ts)) = set (map fst obj) \<union> (team_id ` set ts - {''__proto__''})"
  by (induction obj ts rule: init_from.induct) (auto simp: keys_obj_set simp del: set_map map_map)

lemma distinct_init_from:
  "distinct (map fst obj) \<Longrightarrow> distinct (map fst (init_from obj ts))"
  by (induction obj ts rule: init_from.induct) (auto simp: distinct_obj_set)

lemma entries_init_from:
  "(k, s) \<in> set (init_from obj ts) \<Longrightarrow>
     (k, s) \<in> set obj \<or> (\<exists>t\<in>set ts. k = team_id t \<and> s = init_standing t)"
proof (induction obj ts rule: init_from.induct)
  case (1 obj)
  then show ?case by simp
next
  case (2 obj t ts)
  from "2.IH"[OF "2.prems"[unfolded init_from.simps]] show ?case
    using entries_obj_set[of "team_id t" "init_standing t" obj] by auto
qed

lemma keys_init_stats: "set (map fst (init_stats ts)) = team_id ` set ts - {''__proto__''}"
  by (simp add: init_stats_def keys_init_from del: set_map map_map)

lemma distinct_init_stats: "distinct (map fst (init_stats ts))"
  by (simp add: init_stats_def distinct_init_from)

lemma entries_init_stats:
  "(k, s) \<in> set (init_stats ts) \<Longrightarrow> \<exists>t\<in>set ts. k = team_id t \<and> s = init_standing t"
  using entries_init_from[of k s "[]" ts] by (simp add: init_stats_def)

lemma init_from_plain:
  "\<forall>t\<in>set ts. \<not> is_array_index (team_id t) \<and> team_id t \<noteq> ''__proto__'' \<Longrightarrow>
   distinct (map team_id ts) \<Longrightarrow> set (map fst obj) \<inter> team_id ` set ts = {} \<Longrightarrow>
     init_from obj ts = obj @ map (\<lambda>t. (team_id t, init_standing t)) ts"
proof (induction obj ts rule: init_from.induct)
  case (1 obj)
  then show ?case by simp
next
  case (2 obj t ts)
  have new: "map_of obj (team_id t) = None"
    using "2.prems"(3) by (auto simp: map_of_None_keys)
  have step: "obj_set (team_id t) (init_standing t) obj = obj @ [(team_id t, init_standing t)]"
    using new "2.prems"(1) by (simp add: obj_set_def)
  have "init_from (obj @ [(team_id t, init_standing t)]) ts =
          (obj @ [(team_id t, init_standing t)]) @ map (\<lambda>t. (team_id t, init_standing t)) ts"
    using "2.prems" by (intro "2.IH"[unfolded step]) auto
  then show ?case by (simp add: step)
qed

lemma init_stats_plain:
  "\<forall>t\<in>set ts. \<not> is_array_index (team_id t) \<and> team_id t \<noteq> ''__proto__'' \<Longrightarrow>
   distinct (map team_id ts) \<Longrightarrow>
     init_stats ts = map (\<lambda>t. (team_id t, init_standing t)) ts"
  using init_from_plain[of ts "[]"] by (simp add: init_stats_def)

subsection \<open>Generated ids\<close>

lemma digit_char_cases:
  assumes "0 \<le> d" "d < 10"
  shows "is_digit (digit_char d) \<and> digit_val (digit_char d) = d"
proof -
  from assms have "d \<in> {0, 1, 2, 3, 4, 5, 6, 7, 8, 9}" by simp presburger
  then show ?thesis
    by (auto simp: digit_char_def is_digit_def digit_val_def)
qed

lemma digits_val_snoc:
  "digits_val r (ds @ [c]) = digits_val r ds * r + digit_val c"
  by (simp add: digits_val_def)

lemma dec_digits: "0 \<le> n \<Longrightarrow> list_all is_digit (dec n) \<and> digits_val 10 (dec n) = n"
proof (induction n rule: dec.induct)
  case (1 n)
  show ?case
  proof (cases "n < 10")
    case True
    then show ?thesis
      using digit_char_cases[of n] "1.prems" by (subst (1 2) dec.simps) (simp add: digits_val_def)
  next
    case False
    then have ih: "list_all is_digit (dec (n div 10))" "digits_val 10 (dec (n div 10)) = n div 10"
      using "1.IH" "1.prems" by simp_all
    have m: "0 \<le> n mod 10" "n mod 10 < 10" by simp_all
    from digit_char_cases[OF m] ih False show ?thesis
      by (subst (1 2) dec.simps) (simp add: digits_val_snoc)
  qed
qed

lemma dec_inj:
  assumes "0 \<le> a" "0 \<le> b" "dec a = dec b"
  shows "a = b"
proof -
  have "a = digits_val 10 (dec a)" using dec_digits[OF assms(1)] by simp
  also have "\<dots> = digits_val 10 (dec b)" by (simp only: assms(3))
  also have "\<dots> = b" using dec_digits[OF assms(2)] by simp
  finally show ?thesis .
qed

lemma new_team_id_inj: "new_team_id i a = new_team_id j b \<Longrightarrow> i = j"
proof -
  assume "new_team_id i a = new_team_id j b"
  then have e: "dec (int i) @ CHR ''-'' # dec a = dec (int j) @ CHR ''-'' # dec b"
    by (simp add: new_team_id_def)
  have nd: "\<not> is_digit CHR ''-''" by (simp add: is_digit_def)
  have t: "takeWhile is_digit (dec (int n) @ CHR ''-'' # r) = dec (int n)" for n r
    using dec_digits[of "int n"] nd by (simp add: takeWhile_tail list_all_iff)
  from arg_cong[OF e, of "takeWhile is_digit"] have "dec (int i) = dec (int j)"
    by (simp only: t)
  then show "i = j" using dec_inj[of "int i" "int j"] by simp
qed

lemma new_team_id_plain:
  "\<not> is_array_index (new_team_id i now)" "new_team_id i now \<noteq> ''__proto__''"
  by (simp_all add: new_team_id_def is_array_index_def is_digit_def)

lemma form_ids_nth:
  "i < length nows \<Longrightarrow> form_ids nows ! i = new_team_id i (nows ! i)"
  by (simp add: form_ids_def nth_enumerate_eq)

lemma length_form_ids [simp]: "length (form_ids nows) = length nows"
  by (simp add: form_ids_def)

lemma distinct_form_ids: "distinct (form_ids nows)"
  unfolding distinct_conv_nth
  by (auto simp: form_ids_nth dest: new_team_id_inj)

lemma form_ids_plain:
  "k \<in> set (form_ids nows) \<Longrightarrow> \<not> is_array_index k \<and> k \<noteq> ''__proto__''"
  by (auto simp: in_set_conv_nth form_ids_nth new_team_id_plain)

lemma init_stats_form:
  assumes "map team_id ts = form_ids nows"
  shows "init_stats ts = map (\<lambda>t. (team_id t, init_standing t)) ts"
proof (rule init_stats_plain)
  show "distinct (map team_id ts)" by (simp add: assms distinct_form_ids)
  have "team_id t \<in> set (form_ids nows)" if "t \<in> set ts" for t
    using that arg_cong[OF assms, of set] by auto
  then show "\<forall>t\<in>set ts. \<not> is_array_index (team_id t) \<and> team_id t \<noteq> ''__proto__''"
    using form_ids_plain by blast
qed

section \<open>Rounding\<close>

lemma flog2_le:
  assumes "0 < q"
  shows "2 powi (flog2 q) \<le> q"
proof (cases "1 \<le> q")
  case True
  then have pos: "0 < \<lfloor>q\<rfloor>" by linarith
  from bitlen_bounds[OF pos] have b: "(2::int) ^ nat (bitlen \<lfloor>q\<rfloor> - 1) \<le> \<lfloor>q\<rfloor>" by simp
  have ge: "0 \<le> bitlen \<lfloor>q\<rfloor> - 1"
    using pos by (auto simp: bitlen_alt_def)
  have "(2::rat) powi (bitlen \<lfloor>q\<rfloor> - 1) = 2 ^ nat (bitlen \<lfloor>q\<rfloor> - 1)"
    using ge by (simp add: power_int_nonneg_exp)
  also have "\<dots> = of_int (2 ^ nat (bitlen \<lfloor>q\<rfloor> - 1))" by simp
  also have "\<dots> \<le> of_int \<lfloor>q\<rfloor>" using b by (simp only: of_int_le_iff)
  also have "\<dots> \<le> q" by simp
  finally show ?thesis using True by (simp add: flog2_def)
next
  case False
  define n where "n = \<lceil>1 / q\<rceil>"
  have "1 < 1 / q" using False assms by (simp add: field_simps)
  then have n2: "2 \<le> n" unfolding n_def by linarith
  then have pos: "0 < n - 1" by simp
  from bitlen_bounds[OF pos] have "n - 1 < 2 ^ nat (bitlen (n - 1))" by simp
  then have nle: "n \<le> 2 ^ nat (bitlen (n - 1))" by simp
  have "1 / q \<le> of_int n" unfolding n_def by simp
  also have "\<dots> \<le> of_int (2 ^ nat (bitlen (n - 1)))" using nle by (simp only: of_int_le_iff)
  also have "\<dots> = (2::rat) ^ nat (bitlen (n - 1))" by simp
  finally have "1 / q \<le> (2::rat) ^ nat (bitlen (n - 1))" .
  then have "1 / 2 ^ nat (bitlen (n - 1)) \<le> q"
    using assms by (simp add: field_simps)
  moreover have "(2::rat) powi (- bitlen (n - 1)) = 1 / 2 ^ nat (bitlen (n - 1))"
    using bitlen_nonneg[of "n - 1"]
    by (simp add: power_int_minus_divide power_int_nonneg_exp)
  ultimately show ?thesis using False by (simp add: flog2_def n_def)
qed

lemma round_half_even_ge: "\<lfloor>m\<rfloor> \<le> round_half_even m"
  by (simp add: round_half_even_def Let_def)

lemma rd_sign:
  "(0 < rd q \<longleftrightarrow> 0 < q) \<and> (rd q < 0 \<longleftrightarrow> q < 0) \<and> (rd q = 0 \<longleftrightarrow> q = 0)"
proof (cases "q = 0")
  case True
  then show ?thesis by (simp add: rd_def)
next
  case False
  define e where "e = flog2 \<bar>q\<bar> - 52"
  define n where "n = round_half_even (\<bar>q\<bar> / 2 powi e)"
  have pe: "(0::rat) < 2 powi e" by simp
  have "(2::rat) powi e \<le> 2 powi (flog2 \<bar>q\<bar>)"
    unfolding e_def by (rule power_int_increasing) simp_all
  also have "\<dots> \<le> \<bar>q\<bar>" using False by (intro flog2_le) simp
  finally have "1 \<le> \<bar>q\<bar> / 2 powi e" using pe by (simp add: field_simps)
  then have "1 \<le> \<lfloor>\<bar>q\<bar> / 2 powi e\<rfloor>" by linarith
  then have npos: "0 < n" unfolding n_def using round_half_even_ge[of "\<bar>q\<bar> / 2 powi e"] by linarith
  have r: "rd q = (if q < 0 then - of_int n else of_int n) * 2 powi e"
    using False by (simp add: rd_def Let_def e_def n_def)
  show ?thesis
  proof (cases "q < 0")
    case True
    have "rd q < 0" unfolding r using True npos pe by (simp add: mult_neg_pos)
    then show ?thesis using True by auto
  next
    case F: False
    then have "0 < q" using False by simp
    have "0 < rd q" unfolding r using F npos pe by simp
    then show ?thesis using \<open>0 < q\<close> by auto
  qed
qed

lemma rd_0 [simp]: "rd 0 = 0"
  by (simp add: rd_def)

lemma rd_le_0_iff: "rd q \<le> 0 \<longleftrightarrow> q \<le> 0"
  using rd_sign[of q] by (auto simp: not_less[symmetric] simp del: not_less)

subsection \<open>Whole numbers\<close>

lemma round_half_even_of_int [simp]: "round_half_even (of_int n) = n"
  by (simp add: round_half_even_def)

lemma is_whole_of_int [simp]: "is_whole (of_int z)"
  by (simp add: is_whole_def)

lemma is_wholeE: "is_whole q \<Longrightarrow> (\<And>z. q = of_int z \<Longrightarrow> P) \<Longrightarrow> P"
  unfolding is_whole_def by metis

lemma is_whole_add: "is_whole a \<Longrightarrow> is_whole b \<Longrightarrow> is_whole (a + b)"
  by (elim is_wholeE) (simp add: is_whole_def)

lemma rd_of_int:
  assumes "\<bar>z\<bar> < 2 ^ 53"
  shows "rd (of_int z) = of_int z"
proof (cases "z = 0")
  case True
  then show ?thesis by simp
next
  case False
  define a where "a = \<bar>z\<bar>"
  have a: "0 < a" "a < 2 ^ 53" using False assms by (simp_all add: a_def)
  define k where "k = nat (53 - bitlen a)"
  have "bitlen a \<le> 53" using a by (simp add: bitlen_le_iff_power)
  then have e: "bitlen a - 1 - 52 = - int k" by (simp add: k_def)
  have abs: "\<bar>(of_int z :: rat)\<bar> = of_int a" by (simp add: a_def)
  have fl: "flog2 (of_int a) = bitlen a - 1"
    using a by (simp add: flog2_def)
  have p: "(2::rat) powi (- int k) = 1 / 2 ^ k"
    by (simp add: power_int_minus_divide)
  have m: "(of_int a :: rat) / 2 powi (- int k) = of_int (a * 2 ^ k)"
    by (simp add: p)
  have r: "round_half_even ((of_int a :: rat) / 2 powi (- int k)) = a * 2 ^ k"
    by (simp only: m round_half_even_of_int)
  have nz: "(of_int z :: rat) \<noteq> 0" "(of_int z :: rat) < 0 \<longleftrightarrow> z < 0"
    using False by simp_all
  have "rd (of_int z) = (if z < 0 then - of_int (a * 2 ^ k) else of_int (a * 2 ^ k)) * 2 powi (- int k)"
    unfolding rd_def Let_def abs fl e r by (simp only: nz if_False)
  also have "\<dots> = (if z < 0 then - of_int a else of_int a)"
    by (simp add: p)
  also have "\<dots> = of_int z" by (simp add: a_def)
  finally show ?thesis .
qed

lemma rd_whole: "is_whole q \<Longrightarrow> \<bar>q\<bar> < 2 ^ 53 \<Longrightarrow> rd q = q"
proof (erule is_wholeE)
  fix z assume q: "q = of_int z" and "\<bar>q\<bar> < 2 ^ 53"
  then have "(of_int \<bar>z\<bar> :: rat) < of_int (2 ^ 53)" by simp
  then have "\<bar>z\<bar> < 2 ^ 53" by (simp only: of_int_less_iff)
  then show "rd q = q" unfolding q by (rule rd_of_int)
qed

lemma add_all_Nil [simp]: "add_all x [] = x"
  by (simp add: add_all_def)

lemma add_all_Cons [simp]: "add_all x (p # ps) = add_all (rd (x + p)) ps"
  by (simp add: add_all_def)

lemma add_all_append: "add_all x (ps @ qs) = add_all (add_all x ps) qs"
  by (simp add: add_all_def)

lemma add_all_whole:
  assumes "\<forall>p\<in>set ps. is_whole p \<and> \<bar>p\<bar> \<le> b" "is_whole x"
    and "\<bar>x\<bar> + b * of_nat (length ps) < 2 ^ 53"
  shows "add_all x ps = x + sum_list ps"
  using assms
proof (induction ps arbitrary: x)
  case Nil
  then show ?case by simp
next
  case (Cons p ps)
  have p: "is_whole p" "\<bar>p\<bar> \<le> b" using Cons.prems(1) by simp_all
  then have b: "0 \<le> b" by linarith
  have w: "is_whole (x + p)" using Cons.prems(2) p(1) by (rule is_whole_add)
  have "b * of_nat (length (p # ps)) = b + b * of_nat (length ps)"
    by (simp add: algebra_simps)
  then have bound: "\<bar>x\<bar> + b + b * of_nat (length ps) < 2 ^ 53"
    using Cons.prems(3) by simp
  have "0 \<le> b * of_nat (length ps)" using b by simp
  then have "\<bar>x + p\<bar> < 2 ^ 53" using bound p(2) by linarith
  then have r: "rd (x + p) = x + p" using w by (intro rd_whole)
  have "\<bar>x + p\<bar> + b * of_nat (length ps) < 2 ^ 53" using bound p(2) by linarith
  then have "add_all (x + p) ps = x + p + sum_list ps"
    using Cons.prems(1) w by (intro Cons.IH) simp_all
  then show ?case by (simp add: r)
qed

section \<open>Sorting\<close>

lemma mset_insert_by [simp]: "mset (insert_by cmp x ys) = add_mset x (mset ys)"
  by (induction ys) auto

lemma mset_js_sort [simp]: "mset (js_sort cmp xs) = mset xs"
  by (induction xs) (auto simp: js_sort_def)

lemma set_insert_by [simp]: "set (insert_by cmp x ys) = insert x (set ys)"
  by (induction ys) auto

lemma sorted_insert_by:
  assumes trans: "\<And>a b c. cmp a b \<le> 0 \<Longrightarrow> cmp b c \<le> 0 \<Longrightarrow> cmp a c \<le> 0"
    and total: "\<And>a b. \<not> cmp a b \<le> 0 \<Longrightarrow> cmp b a \<le> 0"
    and "sorted_wrt (\<lambda>a b. cmp a b \<le> 0) ys"
  shows "sorted_wrt (\<lambda>a b. cmp a b \<le> 0) (insert_by cmp x ys)"
  using assms(3)
proof (induction ys)
  case Nil
  then show ?case by simp
next
  case (Cons y ys)
  show ?case
  proof (cases "cmp x y \<le> 0")
    case True
    then have "\<forall>z\<in>set ys. cmp x z \<le> 0" using Cons.prems trans by auto
    then show ?thesis using True Cons.prems by simp
  next
    case False
    then have "cmp y x \<le> 0" by (rule total)
    then show ?thesis using False Cons by simp
  qed
qed

lemma sorted_js_sort:
  assumes "\<And>a b c. cmp a b \<le> 0 \<Longrightarrow> cmp b c \<le> 0 \<Longrightarrow> cmp a c \<le> 0"
    and "\<And>a b. \<not> cmp a b \<le> 0 \<Longrightarrow> cmp b a \<le> 0"
  shows "sorted_wrt (\<lambda>a b. cmp a b \<le> 0) (js_sort cmp xs)"
proof (induction xs)
  case Nil
  then show ?case by (simp add: js_sort_def)
next
  case (Cons x xs)
  have "js_sort cmp (x # xs) = insert_by cmp x (js_sort cmp xs)" by (simp add: js_sort_def)
  then show ?case using sorted_insert_by[OF assms Cons.IH] by simp
qed

lemma filter_insert_by:
  assumes "\<And>y. P x \<Longrightarrow> P y \<Longrightarrow> cmp x y \<le> 0"
  shows "filter P (insert_by cmp x ys) = (if P x then x # filter P ys else filter P ys)"
  using assms by (induction ys) auto

lemma filter_js_sort:
  assumes "\<And>x y. P x \<Longrightarrow> P y \<Longrightarrow> cmp x y \<le> 0"
  shows "filter P (js_sort cmp xs) = filter P xs"
proof (induction xs)
  case Nil
  then show ?case by (simp add: js_sort_def)
next
  case (Cons x xs)
  have "js_sort cmp (x # xs) = insert_by cmp x (js_sort cmp xs)" by (simp add: js_sort_def)
  then show ?case using filter_insert_by[of P x cmp "js_sort cmp xs"] assms Cons.IH by simp
qed

lemma compare_le_0_iff: "compare_standings a b \<le> 0 \<longleftrightarrow> rank_ge a b"
  by (auto simp: compare_standings_def rank_ge_def rd_le_0_iff)

lemma rank_ge_trans: "rank_ge a b \<Longrightarrow> rank_ge b c \<Longrightarrow> rank_ge a c"
  by (auto simp: rank_ge_def)

lemma rank_ge_total: "\<not> rank_ge a b \<Longrightarrow> rank_ge b a"
  by (auto simp: rank_ge_def)

lemma rank_key_eq_compare: "rank_key a = rank_key b \<Longrightarrow> compare_standings a b \<le> 0"
  by (simp add: compare_le_0_iff rank_ge_def rank_key_def)

lemma sorted_standings: "sorted_wrt rank_ge (standings T)"
proof -
  have "sorted_wrt (\<lambda>a b. compare_standings a b \<le> 0)
          (js_sort compare_standings (map snd (standingsMap T)))"
    by (rule sorted_js_sort) (auto simp: compare_le_0_iff intro: rank_ge_trans rank_ge_total)
  then show ?thesis by (simp add: standings_def compare_le_0_iff)
qed

lemma mset_standings: "mset (standings T) = mset (map snd (standingsMap T))"
  by (simp add: standings_def)

lemma stable_standings:
  "filter (\<lambda>s. rank_key s = k) (standings T) = filter (\<lambda>s. rank_key s = k) (map snd (standingsMap T))"
  unfolding standings_def by (rule filter_js_sort) (simp add: rank_key_eq_compare)

section \<open>Additive updates\<close>

lemma additiveI: "(\<And>s. exact_part (f s) = add_totals d (exact_part s)) \<Longrightarrow> additive f"
  unfolding additive_def by blast

lemma additive_updates:
  "additive inc_matchesPlayed" "additive inc_matchesWon" "additive (add_actualPoints p)"
  "additive (add_runsScored r)" "additive (add_oversFaced v)" "additive (add_runsConceded r)"
  "additive (add_oversBowled v)" "additive (add_wicketsTaken w)"
proof -
  show "additive inc_matchesPlayed"
    by (rule additiveI[where d = "(1, 0, 0, 0, 0)"])
      (simp add: exact_part_def add_totals_def inc_matchesPlayed_def)
  show "additive inc_matchesWon"
    by (rule additiveI[where d = "(0, 1, 0, 0, 0)"])
      (simp add: exact_part_def add_totals_def inc_matchesWon_def)
  show "additive (add_actualPoints p)"
    by (rule additiveI[where d = "(0, 0, 0, 0, 0)"])
      (simp add: exact_part_def add_totals_def add_actualPoints_def)
  show "additive (add_runsScored r)"
    by (rule additiveI[where d = "(0, 0, r, 0, 0)"])
      (simp add: exact_part_def add_totals_def add_runsScored_def)
  show "additive (add_oversFaced v)"
    by (rule additiveI[where d = "(0, 0, 0, 0, 0)"])
      (simp add: exact_part_def add_totals_def add_oversFaced_def)
  show "additive (add_runsConceded r)"
    by (rule additiveI[where d = "(0, 0, 0, r, 0)"])
      (simp add: exact_part_def add_totals_def add_runsConceded_def)
  show "additive (add_oversBowled v)"
    by (rule additiveI[where d = "(0, 0, 0, 0, 0)"])
      (simp add: exact_part_def add_totals_def add_oversBowled_def)
  show "additive (add_wicketsTaken w)"
    by (rule additiveI[where d = "(0, 0, 0, 0, w)"])
      (simp add: exact_part_def add_totals_def add_wicketsTaken_def)
qed

lemma match_stmts_additive: "(k, f) \<in> set (match_stmts T m) \<Longrightarrow> additive f"
  by (auto simp: match_stmts_def Let_def additive_updates split: if_splits)

lemma match_stmts_keys: "(k, f) \<in> set (match_stmts T m) \<Longrightarrow> k = team1Id m \<or> k = team2Id m"
  by (auto simp: match_stmts_def Let_def split: if_splits)

lemma all_stmts_additive: "(k, f) \<in> set (all_stmts T) \<Longrightarrow> additive f"
  by (auto simp: all_stmts_def dest: match_stmts_additive)

lemma updaters_additive: "f \<in> set (updaters_for k (all_stmts T)) \<Longrightarrow> additive f"
  by (auto simp: updaters_for_def dest: all_stmts_additive)

lemma exact_part_idem [simp]: "exact_part (exact_part s) = exact_part s"
  by (simp add: exact_part_def)

lemma add_totals_commute: "add_totals d (add_totals d' s) = add_totals d' (add_totals d s)"
  by (cases d; cases d') (simp add: add_totals_def)

lemma additive_absorb: "additive f \<Longrightarrow> exact_part (f (exact_part s)) = exact_part (f s)"
  by (auto simp: additive_def)

lemma additive_commute:
  "additive f \<Longrightarrow> additive g \<Longrightarrow> exact_part (f (g s)) = exact_part (g (f s))"
  by (auto simp: additive_def add_totals_commute)

lemma sid_exact_part [simp]: "sid (exact_part s) = sid s" "sname (exact_part s) = sname s"
  by (simp_all add: exact_part_def)

lemma sid_add_totals [simp]: "sid (add_totals d s) = sid s" "sname (add_totals d s) = sname s"
  by (cases d; simp add: add_totals_def)+

lemma additive_sid: "additive f \<Longrightarrow> sid (f s) = sid s \<and> sname (f s) = sname s"
proof -
  assume "additive f"
  then obtain d where "\<And>s. exact_part (f s) = add_totals d (exact_part s)"
    by (auto simp: additive_def)
  then have "sid (exact_part (f s)) = sid (add_totals d (exact_part s))"
    "sname (exact_part (f s)) = sname (add_totals d (exact_part s))" by simp_all
  then show ?thesis by simp
qed

lemma run_sid: "\<forall>f\<in>set fs. additive f \<Longrightarrow> sid (run fs s) = sid s \<and> sname (run fs s) = sname s"
  by (induction fs arbitrary: s) (auto simp: additive_sid)

lemma exact_part_rates [simp]: "exact_part (rates s) = exact_part s"
  by (simp add: exact_part_def rates_def Let_def)

lemma sid_rates [simp]:
  "sid (rates s) = sid s" "sname (rates s) = sname s" "actualPoints (rates s) = actualPoints s"
  by (simp_all add: rates_def Let_def)

lemma run_exact:
  "\<forall>f\<in>set fs. additive f \<Longrightarrow>
     exact_part (run fs s) = fold (\<lambda>f. exact_part \<circ> f) fs (exact_part s)"
proof (induction fs arbitrary: s)
  case Nil
  then show ?case by simp
next
  case (Cons f fs)
  then show ?case by (simp add: additive_absorb)
qed

lemma run_exact_perm:
  assumes "mset fs = mset gs" and "\<forall>f\<in>set fs. additive f"
  shows "exact_part (run fs s) = exact_part (run gs s)"
proof -
  have gs: "\<forall>f\<in>set gs. additive f"
    using assms by (metis set_mset_mset)
  have "fold (\<lambda>f. exact_part \<circ> f) fs = fold (\<lambda>f. exact_part \<circ> f) gs"
  proof (rule fold_multiset_equiv[OF _ assms(1)])
    fix x y assume "x \<in> set fs" "y \<in> set fs"
    then have a: "additive x" "additive y" using assms(2) by auto
    show "(exact_part \<circ> x) \<circ> (exact_part \<circ> y) = (exact_part \<circ> y) \<circ> (exact_part \<circ> x)"
      by (rule ext) (simp add: additive_absorb[OF a(1)] additive_absorb[OF a(2)]
          additive_commute[OF a])
  qed
  then show ?thesis using run_exact[OF assms(2)] run_exact[OF gs] by simp
qed

section \<open>Totals in double arithmetic\<close>

lemma updaters_for_append:
  "updaters_for k (xs @ ys) = updaters_for k xs @ updaters_for k ys"
  by (simp add: updaters_for_def)

lemma points_match:
  "actualPoints (run (updaters_for k (match_stmts T m)) s)
     = add_all (actualPoints s) (points_for T m k)"
  by (simp add: match_stmts_def points_for_def Let_def updaters_for_def inc_matchesPlayed_def
      inc_matchesWon_def add_actualPoints_def add_runsScored_def add_oversFaced_def
      add_runsConceded_def add_oversBowled_def add_wicketsTaken_def)

lemma faced_match:
  "oversFaced (run (updaters_for k (match_stmts T m)) s)
     = add_all (oversFaced s) (faced_for T m k)"
  by (simp add: match_stmts_def faced_for_def Let_def updaters_for_def inc_matchesPlayed_def
      inc_matchesWon_def add_actualPoints_def add_runsScored_def add_oversFaced_def
      add_runsConceded_def add_oversBowled_def add_wicketsTaken_def)

lemma bowled_match:
  "oversBowled (run (updaters_for k (match_stmts T m)) s)
     = add_all (oversBowled s) (bowled_for T m k)"
  by (simp add: match_stmts_def bowled_for_def Let_def updaters_for_def inc_matchesPlayed_def
      inc_matchesWon_def add_actualPoints_def add_runsScored_def add_oversFaced_def
      add_runsConceded_def add_oversBowled_def add_wicketsTaken_def)

lemma total_matches:
  assumes "\<And>m s. g (run (updaters_for k (match_stmts T m)) s) = add_all (g s) (vs m)"
  shows "g (run (updaters_for k (concat (map (match_stmts T) ms))) s)
           = add_all (g s) (concat (map vs ms))"
proof (induction ms arbitrary: s)
  case Nil
  then show ?case by (simp add: updaters_for_def)
next
  case (Cons m ms)
  show ?case
    by (simp add: updaters_for_append run_append Cons.IH assms add_all_append)
qed

lemma length_concat_pairs:
  "(\<And>m. length (vs m) \<le> 2) \<Longrightarrow> length (concat (map vs ms)) \<le> 2 * length ms"
proof (induction ms)
  case Nil
  then show ?case by simp
next
  case (Cons m ms)
  have "length (vs m) \<le> 2" by (rule Cons.prems)
  moreover have "length (concat (map vs ms)) \<le> 2 * length ms"
    by (rule Cons.IH) (rule Cons.prems)
  ultimately show ?case by simp
qed

lemma total_whole:
  fixes g :: "Standing \<Rightarrow> rat"
  assumes step: "\<And>m s. g (run (updaters_for k (match_stmts T m)) s) = add_all (g s) (vs m)"
    and el: "\<And>m p. m \<in> set ms \<Longrightarrow> p \<in> set (vs m) \<Longrightarrow> is_whole p \<and> \<bar>p\<bar> \<le> b"
    and len: "\<And>m. length (vs m) \<le> 2"
    and bound: "b * of_nat (2 * length ms) < 2 ^ 53"
    and init: "g s = 0"
  shows "g (run (updaters_for k (concat (map (match_stmts T) (filter P (filter Q ms))))) s)
           = sum_list (concat (map vs (filter P (filter Q ms))))"
proof -
  let ?ms = "filter P (filter Q ms)"
  let ?ps = "concat (map vs ?ms)"
  have all: "\<forall>p\<in>set ?ps. is_whole p \<and> \<bar>p\<bar> \<le> b"
    using el by auto
  have "add_all 0 ?ps = 0 + sum_list ?ps"
  proof (cases "?ps = []")
    case True
    show ?thesis by (simp only: True) simp
  next
    case False
    then have "hd ?ps \<in> set ?ps" by (rule hd_in_set)
    with all have "\<bar>hd ?ps\<bar> \<le> b" by blast
    then have b0: "0 \<le> b" by linarith
    have "length ?ps \<le> 2 * length ?ms" using len by (rule length_concat_pairs)
    also have "\<dots> \<le> 2 * length ms"
      by (simp add: le_trans[OF length_filter_le length_filter_le])
    finally have "(of_nat (length ?ps) :: rat) \<le> of_nat (2 * length ms)"
      by (simp only: of_nat_le_iff)
    then have "b * of_nat (length ?ps) \<le> b * of_nat (2 * length ms)"
      using b0 by (rule mult_left_mono)
    then have "\<bar>0::rat\<bar> + b * of_nat (length ?ps) < 2 ^ 53" using bound by simp
    then show ?thesis
      by (intro add_all_whole[OF all]) (simp_all add: is_whole_def)
  qed
  then show ?thesis
    unfolding total_matches[of g, OF step] init by simp
qed

lemma mset_concat_map:
  "mset (concat (map g xs)) = \<Sum>\<^sub># (image_mset (\<lambda>x. mset (g x)) (mset xs))"
  by (induction xs) auto

lemma total_perm:
  fixes g :: "Standing \<Rightarrow> rat"
  assumes perm: "mset ms' = mset ms"
    and step: "\<And>m s. g (run (updaters_for k (match_stmts T m)) s) = add_all (g s) (vs m)"
    and el: "\<And>m p. m \<in> set ms \<Longrightarrow> p \<in> set (vs m) \<Longrightarrow> is_whole p \<and> \<bar>p\<bar> \<le> b"
    and len: "\<And>m. length (vs m) \<le> 2"
    and bound: "b * of_nat (2 * length ms) < 2 ^ 53"
    and init: "g s = 0"
  shows "g (run (updaters_for k (concat (map (match_stmts T) (filter P (filter Q ms'))))) s)
           = g (run (updaters_for k (concat (map (match_stmts T) (filter P (filter Q ms))))) s)"
proof -
  have set: "set ms' = set ms" using perm by (rule mset_eq_setD)
  have length: "length ms' = length ms" using perm by (rule mset_eq_length)
  have "mset (filter P (filter Q ms')) = mset (filter P (filter Q ms))"
    using perm by simp
  then have "mset (concat (map vs (filter P (filter Q ms'))))
           = mset (concat (map vs (filter P (filter Q ms))))"
    by (simp only: mset_concat_map)
  then have "sum_list (concat (map vs (filter P (filter Q ms'))))
           = sum_list (concat (map vs (filter P (filter Q ms))))"
    by (simp only: sum_mset_sum_list[symmetric])
  moreover have "g (run (updaters_for k (concat (map (match_stmts T) (filter P (filter Q ms'))))) s)
           = sum_list (concat (map vs (filter P (filter Q ms'))))"
  proof (rule total_whole[where b = b, OF step _ len _ init])
    show "is_whole p \<and> \<bar>p\<bar> \<le> b" if "m \<in> set ms'" "p \<in> set (vs m)" for m p
      using that el by (simp add: set)
    show "b * of_nat (2 * length ms') < 2 ^ 53"
      using bound by (simp only: length)
  qed
  moreover have "g (run (updaters_for k (concat (map (match_stmts T) (filter P (filter Q ms))))) s)
           = sum_list (concat (map vs (filter P (filter Q ms))))"
    by (rule total_whole[where b = b, OF step el len bound init])
  ultimately show ?thesis by simp
qed

lemma points_for_bound:
  assumes "whole_points T" "p \<in> set (points_for T m k)"
  shows "is_whole p \<and>
    \<bar>p\<bar> \<le> max \<bar>win (pointsConfig T)\<bar> (max \<bar>draw (pointsConfig T)\<bar> \<bar>loss (pointsConfig T)\<bar>)"
proof -
  from assms(2) have "p \<in> {win (pointsConfig T), draw (pointsConfig T), loss (pointsConfig T)}"
    by (auto simp: points_for_def Let_def split: if_splits)
  then show ?thesis using assms(1) by (auto simp: whole_points_def le_max_iff_disj)
qed

lemma overs_for_bound:
  assumes "whole_overs T b" "m \<in> set (matches T)"
    and "p \<in> set (faced_for T m k) \<or> p \<in> set (bowled_for T m k)"
  shows "is_whole p \<and> \<bar>p\<bar> \<le> b"
proof -
  from assms(3) have "p = t1VolFaced T m \<or> p = t2VolFaced T m"
    by (auto simp: faced_for_def bowled_for_def split: if_splits)
  then show ?thesis using assms(1,2) by (auto simp: whole_overs_def list_all_iff)
qed

lemma length_for:
  "length (points_for T m k) \<le> 2" "length (faced_for T m k) \<le> 2"
  "length (bowled_for T m k) \<le> 2"
  by (simp_all add: points_for_def faced_for_def bowled_for_def Let_def)

section \<open>Order of the matches\<close>

lemma config_matches_update [simp]:
  "pointsConfig (T\<lparr>matches := ms\<rparr>) = pointsConfig T"
  "isHundred (T\<lparr>matches := ms\<rparr>) = isHundred T"
  "maxOvers (T\<lparr>matches := ms\<rparr>) = maxOvers T"
  by (simp_all add: pointsConfig_def isHundred_def maxOvers_def)

lemma match_stmts_matches_update [simp]:
  "match_stmts (T\<lparr>matches := ms\<rparr>) = match_stmts T"
  by (rule ext) (simp add: match_stmts_def t1VolFaced_def t2VolFaced_def)

lemma all_stmts_matches_update:
  "all_stmts (T\<lparr>matches := ms\<rparr>) =
     concat (map (match_stmts T)
       (filter (known (init_stats (teams T))) (filter (\<lambda>m. status m = COMPLETED) ms)))"
  by (simp add: all_stmts_def)

lemma mset_updaters_for:
  "mset (updaters_for k l) = image_mset snd (filter_mset (\<lambda>(k', f). k' = k) (mset l))"
  by (simp add: updaters_for_def)

lemma mset_updaters_perm:
  assumes "mset ms' = mset (matches T)"
  shows "mset (updaters_for k (all_stmts (T\<lparr>matches := ms'\<rparr>))) = mset (updaters_for k (all_stmts T))"
proof -
  let ?K = "known (init_stats (teams T))"
  let ?C = "\<lambda>m. status m = COMPLETED"
  have "mset (filter ?K (filter ?C ms')) = mset (filter ?K (filter ?C (matches T)))"
    using assms by simp
  then have "mset (concat (map (match_stmts T) (filter ?K (filter ?C ms'))))
           = mset (concat (map (match_stmts T) (filter ?K (filter ?C (matches T)))))"
    by (simp only: mset_concat_map)
  then have "mset (all_stmts (T\<lparr>matches := ms'\<rparr>)) = mset (all_stmts T)"
    by (simp add: all_stmts_def)
  then show ?thesis
    by (simp only: mset_updaters_for)
qed

lemma exact_perm:
  assumes "mset ms' = mset (matches T)"
  shows "exact_part (run (updaters_for k (all_stmts (T\<lparr>matches := ms'\<rparr>))) s)
           = exact_part (run (updaters_for k (all_stmts T)) s)"
  by (rule run_exact_perm[OF mset_updaters_perm[OF assms]]) (auto dest: updaters_additive)

lemma points_perm:
  assumes "mset ms' = mset (matches T)" "whole_points T" "actualPoints s = 0"
  shows "actualPoints (run (updaters_for k (all_stmts (T\<lparr>matches := ms'\<rparr>))) s)
           = actualPoints (run (updaters_for k (all_stmts T)) s)"
  unfolding all_stmts_matches_update unfolding all_stmts_def
proof (rule total_perm[OF assms(1) points_match _ length_for(1) _ assms(3)])
  show "is_whole p \<and>
          \<bar>p\<bar> \<le> max \<bar>win (pointsConfig T)\<bar> (max \<bar>draw (pointsConfig T)\<bar> \<bar>loss (pointsConfig T)\<bar>)"
    if "p \<in> set (points_for T m k)" for m p
    using assms(2) that by (rule points_for_bound)
  show "max \<bar>win (pointsConfig T)\<bar> (max \<bar>draw (pointsConfig T)\<bar> \<bar>loss (pointsConfig T)\<bar>)
          * of_nat (2 * length (matches T)) < 2 ^ 53"
    using assms(2) by (simp add: whole_points_def)
qed

lemma faced_perm:
  assumes "mset ms' = mset (matches T)" "whole_overs T b" "oversFaced s = 0"
  shows "oversFaced (run (updaters_for k (all_stmts (T\<lparr>matches := ms'\<rparr>))) s)
           = oversFaced (run (updaters_for k (all_stmts T)) s)"
  unfolding all_stmts_matches_update unfolding all_stmts_def
proof (rule total_perm[OF assms(1) faced_match _ length_for(2) _ assms(3)])
  show "is_whole p \<and> \<bar>p\<bar> \<le> b" if "m \<in> set (matches T)" "p \<in> set (faced_for T m k)" for m p
    using overs_for_bound[OF assms(2) that(1)] that(2) by blast
  show "b * of_nat (2 * length (matches T)) < 2 ^ 53"
    using assms(2) by (simp add: whole_overs_def)
qed

lemma bowled_perm:
  assumes "mset ms' = mset (matches T)" "whole_overs T b" "oversBowled s = 0"
  shows "oversBowled (run (updaters_for k (all_stmts (T\<lparr>matches := ms'\<rparr>))) s)
           = oversBowled (run (updaters_for k (all_stmts T)) s)"
  unfolding all_stmts_matches_update unfolding all_stmts_def
proof (rule total_perm[OF assms(1) bowled_match _ length_for(3) _ assms(3)])
  show "is_whole p \<and> \<bar>p\<bar> \<le> b" if "m \<in> set (matches T)" "p \<in> set (bowled_for T m k)" for m p
    using overs_for_bound[OF assms(2) that(1)] that(2) by blast
  show "b * of_nat (2 * length (matches T)) < 2 ^ 53"
    using assms(2) by (simp add: whole_overs_def)
qed

lemma rates_eq:
  assumes "exact_part x = exact_part y" "actualPoints x = actualPoints y"
    and "oversFaced x = oversFaced y" "oversBowled x = oversBowled y"
  shows "rates x = rates y"
proof -
  have "rates z = rates (exact_part z\<lparr>actualPoints := actualPoints z,
          oversFaced := oversFaced z, oversBowled := oversBowled z\<rparr>)" for z
    by (simp add: rates_def exact_part_def Let_def)
  then show ?thesis using assms by metis
qed

lemma with_points_eq:
  "exact_part a = exact_part b \<Longrightarrow> actualPoints a = actualPoints b \<Longrightarrow>
     with_points a = with_points b"
proof -
  assume e: "exact_part a = exact_part b" and p: "actualPoints a = actualPoints b"
  have "with_points x = exact_part x\<lparr>actualPoints := actualPoints x\<rparr>" for x
    by (simp add: with_points_def exact_part_def)
  then show ?thesis using e p by simp
qed

lemma with_points_rates [simp]: "with_points (rates s) = with_points s"
  by (simp add: with_points_def rates_def Let_def)

lemma actualPoints_with_points [simp]: "actualPoints (with_points s) = actualPoints s"
  by (simp add: with_points_def)

lemma exact_standingsMap:
  "map (apsnd exact_part) (standingsMap T) =
     map (\<lambda>(k, s). (k, exact_part (run (updaters_for k (all_stmts T)) s))) (init_stats (teams T))"
  by (simp add: standingsMap_entries case_prod_beta apsnd_def map_prod_def)

lemma points_standingsMap:
  "map (apsnd with_points) (standingsMap T) =
     map (\<lambda>(k, s). (k, with_points (run (updaters_for k (all_stmts T)) s))) (init_stats (teams T))"
  by (simp add: standingsMap_entries case_prod_beta apsnd_def map_prod_def)

lemma image_rows:
  "mset (map f (standings T)) = mset (map snd (map (apsnd f) (standingsMap T)))"
proof -
  have "mset (map f (standings T)) = image_mset f (mset (standings T))"
    by simp
  also have "\<dots> = image_mset f (mset (map snd (standingsMap T)))"
    by (simp only: mset_standings)
  also have "\<dots> = mset (map f (map snd (standingsMap T)))"
    by (simp only: mset_map)
  also have "map f (map snd (standingsMap T)) = map snd (map (apsnd f) (standingsMap T))"
    by (simp add: comp_def)
  finally show ?thesis .
qed

lemma sorted_desc_unique:
  fixes xs ys :: "'a::linorder list"
  assumes "sorted_wrt (\<lambda>a b. b \<le> a) xs" "sorted_wrt (\<lambda>a b. b \<le> a) ys" "mset xs = mset ys"
  shows "xs = ys"
proof -
  have s: "sorted (rev xs)" "sorted (rev ys)"
    using assms(1,2) by (simp_all add: sorted_wrt_rev)
  have m: "mset (rev xs) = mset (rev ys)" using assms(3) by simp
  from properties_for_sort[OF m s(1)] properties_for_sort[OF refl s(2)]
  have "rev xs = rev ys" by simp
  then show ?thesis by simp
qed

lemma points_descending: "sorted_wrt (\<lambda>a b. b \<le> a) (map actualPoints (standings T))"
proof -
  have "sorted_wrt (\<lambda>a b. actualPoints b \<le> actualPoints a) (standings T)"
    by (rule sorted_wrt_mono_rel[OF _ sorted_standings]) (auto simp: rank_ge_def)
  then show ?thesis by (simp add: sorted_wrt_map)
qed

text \<open>
  Claim C4, as amended. Reordering the match list leaves every entry of the standings map
  in place and leaves its exact part unchanged: the team, and the totals that are sums of
  integers (matches played and won, runs scored and conceded, wickets taken); the ranked
  standings consist of the same rows as far as these fields go. When the points in force
  are whole numbers, the points of every team are unchanged too, the ranked standings show
  the same column of points, and every group of teams level on points consists of the same
  teams: the rank order can change only inside such a group. When the overs volumes of the
  matches are whole numbers as well, as they always are in the hundred-ball format, the
  standings are the same in every field and in their order. Overs faced and bowled are
  sums of doubles, rounded after each addition, and so are the points; where the numbers
  added are not whole, the sums, the three rates computed from the overs and the rank
  order inside a group of teams level on points are not covered.
\<close>

theorem match_order_exact_totals:
  assumes "mset ms' = mset (matches T)"
  shows "map (apsnd exact_part) (standingsMap (T\<lparr>matches := ms'\<rparr>))
           = map (apsnd exact_part) (standingsMap T) \<and>
         mset (map exact_part (standings (T\<lparr>matches := ms'\<rparr>)))
           = mset (map exact_part (standings T)) \<and>
         (whole_points T \<longrightarrow>
            map (apsnd with_points) (standingsMap (T\<lparr>matches := ms'\<rparr>))
              = map (apsnd with_points) (standingsMap T) \<and>
            map actualPoints (standings (T\<lparr>matches := ms'\<rparr>))
              = map actualPoints (standings T) \<and>
            (\<forall>p. mset (map with_points
                     (filter (\<lambda>s. actualPoints s = p) (standings (T\<lparr>matches := ms'\<rparr>))))
                 = mset (map with_points (filter (\<lambda>s. actualPoints s = p) (standings T))))) \<and>
         (whole_points T \<and> whole_overs T b \<longrightarrow>
            standingsMap (T\<lparr>matches := ms'\<rparr>) = standingsMap T \<and>
            standings (T\<lparr>matches := ms'\<rparr>) = standings T)"
proof (intro conjI impI allI)
  let ?T' = "T\<lparr>matches := ms'\<rparr>"
  show e: "map (apsnd exact_part) (standingsMap ?T') = map (apsnd exact_part) (standingsMap T)"
    by (simp add: exact_standingsMap exact_perm[OF assms])
  then show "mset (map exact_part (standings ?T')) = mset (map exact_part (standings T))"
    by (simp only: image_rows)
  have full: "standingsMap ?T' = standingsMap T" if w: "whole_points T" "whole_overs T b"
  proof -
    have "rates (run (updaters_for k (all_stmts ?T')) s)
            = rates (run (updaters_for k (all_stmts T)) s)"
      if "(k, s) \<in> set (init_stats (teams T))" for k s
    proof -
      from entries_init_stats[OF that]
      have "actualPoints s = 0" "oversFaced s = 0" "oversBowled s = 0"
        by (auto simp: init_standing_def)
      then show ?thesis
        using points_perm[OF assms w(1)] faced_perm[OF assms w(2)] bowled_perm[OF assms w(2)]
          exact_perm[OF assms]
        by (intro rates_eq)
    qed
    then show ?thesis by (auto simp: standingsMap_entries)
  qed
  show "standingsMap ?T' = standingsMap T" if "whole_points T \<and> whole_overs T b"
    using full that by blast
  then show "standings ?T' = standings T" if "whole_points T \<and> whole_overs T b"
    using that by (simp add: standings_def)
  assume w: "whole_points T"
  have "with_points (run (updaters_for k (all_stmts ?T')) s)
          = with_points (run (updaters_for k (all_stmts T)) s)"
    if "(k, s) \<in> set (init_stats (teams T))" for k s
  proof -
    from entries_init_stats[OF that] have "actualPoints s = 0"
      by (auto simp: init_standing_def)
    from points_perm[OF assms w this] exact_perm[OF assms] show ?thesis
      by (intro with_points_eq)
  qed
  then show p: "map (apsnd with_points) (standingsMap ?T')
                  = map (apsnd with_points) (standingsMap T)"
    by (auto simp: points_standingsMap)
  then have rows: "mset (map with_points (standings ?T')) = mset (map with_points (standings T))"
    by (simp only: image_rows)
  have "mset (map actualPoints (map with_points (standings ?T')))
          = mset (map actualPoints (map with_points (standings T)))"
    using rows by (metis mset_map)
  then have "mset (map actualPoints (standings ?T')) = mset (map actualPoints (standings T))"
    by (simp add: comp_def)
  then show "map actualPoints (standings ?T') = map actualPoints (standings T)"
    by (intro sorted_desc_unique points_descending)
  fix p
  have "mset (map with_points (filter (\<lambda>s. actualPoints s = p) xs))
          = filter_mset (\<lambda>s. actualPoints s = p) (mset (map with_points xs))" for xs
    by (induction xs) auto
  then show "mset (map with_points (filter (\<lambda>s. actualPoints s = p) (standings ?T')))
               = mset (map with_points (filter (\<lambda>s. actualPoints s = p) (standings T)))"
    by (simp only: rows)
qed

text \<open>
  The claim as stated fails on overs, rates and rank. A and B have the same six points from
  the same three chases. In the season as listed, A's overs faced add up to
  54.83333333333334 and B's, added in the other order, to 54.833333333333336, so that B
  has the higher net run rate (0.9339918946301928 against 0.933991894630191) and ranks
  first. With the matches reordered, the two sums and the two ranks are exchanged.

  It fails on points too when they are not whole: with 1 point for a win and 0.1 for a
  draw, two wins followed by three ties give A 2.3000000000000003 points, and three ties
  followed by two wins give 2.3.
\<close>

lemma rows_season:
  "map (\<lambda>s. (sname s, actualPoints s, oversFaced s, nrr s)) (standings season)
     = [(''B'', 6, 7717105611483819 / 140737488355328, 262895346788975 / 281474976710656),
        (''A'', 6, 1929276402870955 / 35184372088832, 525790693577949 / 562949953421312),
        (''C'', 0, 120, - (525790693577949 / 562949953421312))]"
  by code_simp

lemma rows_reordered:
  "map (\<lambda>s. (sname s, actualPoints s, oversFaced s, nrr s))
     (standings (season\<lparr>matches := reordered\<rparr>))
     = [(''A'', 6, 7717105611483819 / 140737488355328, 262895346788975 / 281474976710656),
        (''B'', 6, 1929276402870955 / 35184372088832, 525790693577949 / 562949953421312),
        (''C'', 0, 120, - (262895346788975 / 281474976710656))]"
  by code_simp

lemma reordered_perm: "mset reordered = mset (matches season)"
  by (simp add: season_def reordered_def)

lemma ties_first_perm: "mset ties_first = mset (matches wins_first)"
  by (simp add: wins_first_def ties_first_def league_def)

lemma points_wins_first:
  "map (\<lambda>s. (sname s, actualPoints s)) (standings wins_first)
     = [(''A'', 5179139571476071 / 2251799813685248), (''B'', 1351079888211149 / 4503599627370496)]"
  by code_simp

lemma points_ties_first:
  "map (\<lambda>s. (sname s, actualPoints s)) (standings (wins_first\<lparr>matches := ties_first\<rparr>))
     = [(''A'', 2589569785738035 / 1125899906842624), (''B'', 1351079888211149 / 4503599627370496)]"
  by code_simp

lemma row_columns:
  "map sname xs = map fst (map (\<lambda>s. (sname s, actualPoints s, oversFaced s, nrr s)) xs)"
  "map oversFaced xs
     = map (fst \<circ> snd \<circ> snd) (map (\<lambda>s. (sname s, actualPoints s, oversFaced s, nrr s)) xs)"
  "map nrr xs
     = map (snd \<circ> snd \<circ> snd) (map (\<lambda>s. (sname s, actualPoints s, oversFaced s, nrr s)) xs)"
  by (simp_all add: comp_def)

theorem match_order_counterexample:
  "mset reordered = mset (matches season) \<and>
   map sname (standings season) = [''B'', ''A'', ''C''] \<and>
   map sname (standings (season\<lparr>matches := reordered\<rparr>)) = [''A'', ''B'', ''C''] \<and>
   map oversFaced (standings season)
     = [7717105611483819 / 140737488355328, 1929276402870955 / 35184372088832, 120] \<and>
   map oversFaced (standings (season\<lparr>matches := reordered\<rparr>))
     = [7717105611483819 / 140737488355328, 1929276402870955 / 35184372088832, 120] \<and>
   map nrr (standings season)
     = [262895346788975 / 281474976710656, 525790693577949 / 562949953421312,
        - (525790693577949 / 562949953421312)] \<and>
   map nrr (standings (season\<lparr>matches := reordered\<rparr>))
     = [262895346788975 / 281474976710656, 525790693577949 / 562949953421312,
        - (262895346788975 / 281474976710656)] \<and>
   mset ties_first = mset (matches wins_first) \<and>
   map (\<lambda>s. (sname s, actualPoints s)) (standings wins_first)
     = [(''A'', 5179139571476071 / 2251799813685248),
        (''B'', 1351079888211149 / 4503599627370496)] \<and>
   map (\<lambda>s. (sname s, actualPoints s)) (standings (wins_first\<lparr>matches := ties_first\<rparr>))
     = [(''A'', 2589569785738035 / 1125899906842624),
        (''B'', 1351079888211149 / 4503599627370496)]"
  unfolding row_columns rows_season rows_reordered points_wins_first points_ties_first
  using reordered_perm ties_first_perm by simp

lemma whole_points_season: "whole_points season"
  by code_simp

lemma whole_one_all: "whole_points one_all" "whole_overs one_all 20"
  by code_simp+

theorem match_order_exact_totals_witness:
  "mset reordered = mset (matches season) \<and> whole_points season \<and>
   map (apsnd exact_part) (standingsMap (season\<lparr>matches := reordered\<rparr>))
     = map (apsnd exact_part) (standingsMap season) \<and>
   mset (map exact_part (standings (season\<lparr>matches := reordered\<rparr>)))
     = mset (map exact_part (standings season)) \<and>
   map actualPoints (standings (season\<lparr>matches := reordered\<rparr>)) = [6, 6, 0] \<and>
   map actualPoints (standings season) = [6, 6, 0] \<and>
   whole_points one_all \<and> whole_overs one_all 20 \<and>
   standings (one_all\<lparr>matches := rev (matches one_all)\<rparr>) = standings one_all"
proof -
  have "mset (rev (matches one_all)) = mset (matches one_all)" by simp
  from match_order_exact_totals[OF this, of 20] whole_one_all
  have one: "standings (one_all\<lparr>matches := rev (matches one_all)\<rparr>) = standings one_all"
    by blast
  have "map actualPoints (standings season)
          = map (fst \<circ> snd) (map (\<lambda>s. (sname s, actualPoints s, oversFaced s, nrr s))
              (standings season))"
    by (simp add: comp_def)
  then have "map actualPoints (standings season) = [6, 6, 0]"
    unfolding rows_season by simp
  then show ?thesis
    using match_order_exact_totals[OF reordered_perm, of 0] reordered_perm whole_points_season
      whole_one_all one
    by simp
qed

section \<open>Entries of the standings\<close>

lemma standings_entry:
  assumes "s \<in> set (standings T)"
  shows "\<exists>t\<in>set (teams T).
           s = rates (run (updaters_for (team_id t) (all_stmts T)) (init_standing t)) \<and>
           sid s = team_id t"
proof -
  from assms have "s \<in> set (map snd (standingsMap T))"
    using mset_standings[of T] by (metis set_mset_mset)
  then obtain k s0 where in0: "(k, s0) \<in> set (init_stats (teams T))"
    and s: "s = rates (run (updaters_for k (all_stmts T)) s0)"
    by (auto simp: standingsMap_entries)
  from entries_init_stats[OF in0] obtain t where t: "t \<in> set (teams T)" "k = team_id t"
    "s0 = init_standing t" by blast
  have "sid s = sid s0"
    unfolding s by (simp add: run_sid updaters_additive)
  then have "sid s = team_id t" by (simp add: t init_standing_def)
  with s t show ?thesis by blast
qed

lemma sids_standingsMap: "map sid (map snd (standingsMap T)) = map fst (init_stats (teams T))"
proof -
  have "sid (rates (run (updaters_for k (all_stmts T)) s0)) = k"
    if "(k, s0) \<in> set (init_stats (teams T))" for k s0
  proof -
    from entries_init_stats[OF that] have "sid s0 = k" by (auto simp: init_standing_def)
    then show ?thesis by (simp add: run_sid updaters_additive)
  qed
  then show ?thesis by (auto simp: standingsMap_entries)
qed

lemma distinct_sids_standings: "distinct (map sid (standings T))"
proof -
  have "mset (map sid (standings T)) = mset (map sid (map snd (standingsMap T)))"
    using mset_standings[of T] by (metis mset_map)
  moreover have "distinct (map sid (map snd (standingsMap T)))"
    by (simp only: sids_standingsMap distinct_init_stats)
  ultimately show ?thesis by (metis mset_eq_imp_distinct_iff)
qed

lemma set_sids_standings:
  "set (map sid (standings T)) = team_id ` set (teams T) - {''__proto__''}"
proof -
  have "mset (map sid (standings T)) = mset (map sid (map snd (standingsMap T)))"
    using mset_standings[of T] by (metis mset_map)
  then have "set (map sid (standings T)) = set (map sid (map snd (standingsMap T)))"
    by (metis set_mset_mset)
  then show ?thesis by (simp only: sids_standingsMap keys_init_stats)
qed

lemma filter_distinct_one:
  "distinct (map f xs) \<Longrightarrow> y \<in> set (map f xs) \<Longrightarrow> length (filter (\<lambda>x. f x = y) xs) = 1"
proof (induction xs)
  case Nil
  then show ?case by simp
next
  case (Cons x xs)
  show ?case
  proof (cases "f x = y")
    case True
    have "\<forall>z\<in>set xs. f z \<noteq> y"
      using Cons.prems(1) True by (auto simp: image_iff)
    then have "filter (\<lambda>x. f x = y) xs = []" by (simp add: filter_empty_conv)
    then show ?thesis using True by simp
  next
    case False
    then show ?thesis using Cons by auto
  qed
qed

lemma rows_form:
  assumes "map team_id (teams T) = form_ids nows"
  shows "map (\<lambda>s. (sid s, sname s)) (map snd (standingsMap T))
           = map (\<lambda>t. (team_id t, team_name t)) (teams T)"
proof -
  have "sid (rates (run (updaters_for (team_id t) (all_stmts T)) (init_standing t))) = team_id t"
    "sname (rates (run (updaters_for (team_id t) (all_stmts T)) (init_standing t))) = team_name t"
    for t
    by (simp_all add: run_sid updaters_additive init_standing_def)
  then show ?thesis
    by (simp add: standingsMap_entries init_stats_form[OF assms] comp_def)
qed

lemma rows_form_standings:
  assumes "map team_id (teams T) = form_ids nows"
  shows "mset (map (\<lambda>s. (sid s, sname s)) (standings T))
           = mset (map (\<lambda>t. (team_id t, team_name t)) (teams T))"
proof -
  have "mset (map (\<lambda>s. (sid s, sname s)) (standings T))
          = image_mset (\<lambda>s. (sid s, sname s)) (mset (standings T))" by simp
  also have "\<dots> = image_mset (\<lambda>s. (sid s, sname s)) (mset (map snd (standingsMap T)))"
    by (simp only: mset_standings)
  also have "\<dots> = mset (map (\<lambda>s. (sid s, sname s)) (map snd (standingsMap T)))"
    by (simp only: mset_map)
  finally show ?thesis by (simp only: rows_form[OF assms])
qed

lemma updaters_unplayed:
  assumes "\<forall>m\<in>set (matches T). status m = COMPLETED \<longrightarrow> team1Id m \<noteq> k \<and> team2Id m \<noteq> k"
  shows "updaters_for k (all_stmts T) = []"
proof -
  have "k' \<noteq> k" if "(k', f) \<in> set (all_stmts T)" for k' f
  proof -
    from that obtain m where m: "m \<in> set (matches T)" "status m = COMPLETED"
      "(k', f) \<in> set (match_stmts T m)"
      by (auto simp: all_stmts_def)
    from match_stmts_keys[OF m(3)] assms m(1,2) show ?thesis by auto
  qed
  then show ?thesis by (auto simp: updaters_for_def filter_empty_conv)
qed

lemma rates_init:
  "actualPoints (rates (init_standing t)) = 0" "nrr (rates (init_standing t)) = 0"
  "scoringRate (rates (init_standing t)) = 0" "economyRate (rates (init_standing t)) = 0"
  by (simp_all add: rates_def init_standing_def)

lemma rates_zero_denominator:
  "oversFaced (rates s) = 0 \<Longrightarrow> scoringRate (rates s) = 0"
  "oversBowled (rates s) = 0 \<Longrightarrow> economyRate (rates s) = 0"
  by (simp_all add: rates_def Let_def)

text \<open>
  Claim C10. For a team list with the ids of the creation form, the rows of the standings
  are the teams of the list, each exactly once. A row whose team occurs in no completed
  match has 0 points and net run rate, scoring rate and economy rate 0. In every row, a
  rate whose overs denominator is 0 is 0.
\<close>

theorem every_team_once_unplayed_zero:
  "(map team_id (teams T) = form_ids nows \<longrightarrow>
      mset (map (\<lambda>s. (sid s, sname s)) (standings T))
        = mset (map (\<lambda>t. (team_id t, team_name t)) (teams T)) \<and>
      (\<forall>t\<in>set (teams T). length (filter (\<lambda>s. sid s = team_id t) (standings T)) = 1)) \<and>
   (\<forall>s\<in>set (standings T).
      (\<forall>m\<in>set (matches T). status m = COMPLETED \<longrightarrow> team1Id m \<noteq> sid s \<and> team2Id m \<noteq> sid s)
        \<longrightarrow> actualPoints s = 0 \<and> nrr s = 0 \<and> scoringRate s = 0 \<and> economyRate s = 0) \<and>
   (\<forall>s\<in>set (standings T).
      (oversFaced s = 0 \<longrightarrow> scoringRate s = 0) \<and> (oversBowled s = 0 \<longrightarrow> economyRate s = 0))"
proof (intro conjI ballI impI)
  assume f: "map team_id (teams T) = form_ids nows"
  then show "mset (map (\<lambda>s. (sid s, sname s)) (standings T))
               = mset (map (\<lambda>t. (team_id t, team_name t)) (teams T))"
    by (rule rows_form_standings)
  fix t assume t: "t \<in> set (teams T)"
  then have "team_id t \<in> set (form_ids nows)"
    using arg_cong[OF f, of set] by auto
  then have "team_id t \<noteq> ''__proto__''" using form_ids_plain by blast
  then have "team_id t \<in> set (map sid (standings T))"
    using t by (simp only: set_sids_standings) simp
  then show "length (filter (\<lambda>s. sid s = team_id t) (standings T)) = 1"
    by (rule filter_distinct_one[OF distinct_sids_standings])
next
  fix s
  assume s: "s \<in> set (standings T)"
    and un: "\<forall>m\<in>set (matches T). status m = COMPLETED \<longrightarrow> team1Id m \<noteq> sid s \<and> team2Id m \<noteq> sid s"
  from standings_entry[OF s] obtain t where
    t: "s = rates (run (updaters_for (team_id t) (all_stmts T)) (init_standing t))"
      "sid s = team_id t" by blast
  have "updaters_for (team_id t) (all_stmts T) = []"
    using updaters_unplayed[of T "team_id t"] un t(2) by simp
  then have "s = rates (init_standing t)" using t(1) by simp
  then show "actualPoints s = 0" "nrr s = 0" "scoringRate s = 0" "economyRate s = 0"
    by (simp_all only: rates_init)
next
  fix s assume s: "s \<in> set (standings T)"
  from standings_entry[OF s] obtain x where x: "s = rates x" by blast
  show "oversFaced s = 0 \<Longrightarrow> scoringRate s = 0" "oversBowled s = 0 \<Longrightarrow> economyRate s = 0"
    unfolding x by (rule rates_zero_denominator, assumption)+
qed

lemma sids_trio:
  "map sid (standings trio) = [team_id teamA, team_id teamC, team_id teamB]"
  by code_simp

lemma ids_trio: "map team_id (teams trio) = form_ids [1700000000000, 1700000000000, 1700000000000]"
  by code_simp

lemma overs_trio:
  "map (\<lambda>s. (oversFaced s, oversBowled s)) (standings trio) = [(20, 20), (0, 0), (20, 20)]"
  by code_simp

theorem every_team_once_unplayed_zero_witness:
  "map team_id (teams trio) = form_ids [1700000000000, 1700000000000, 1700000000000] \<and>
   map sid (standings trio) = [team_id teamA, team_id teamC, team_id teamB] \<and>
   map status (matches trio) = [COMPLETED, NOT_STARTED] \<and>
   mset (map (\<lambda>s. (sid s, sname s)) (standings trio))
     = mset (map (\<lambda>t. (team_id t, team_name t)) (teams trio)) \<and>
   length (filter (\<lambda>s. sid s = team_id teamC) (standings trio)) = 1 \<and>
   oversFaced (standings trio ! 1) = 0 \<and> oversBowled (standings trio ! 1) = 0 \<and>
   actualPoints (standings trio ! 1) = 0 \<and> nrr (standings trio ! 1) = 0 \<and>
   scoringRate (standings trio ! 1) = 0 \<and> economyRate (standings trio ! 1) = 0"
proof -
  let ?s = "standings trio ! 1"
  have len: "length (standings trio) = 3"
    using arg_cong[OF sids_trio, of length] by simp
  then have mem: "?s \<in> set (standings trio)" by simp
  have sid: "sid ?s = team_id teamC"
    using arg_cong[OF sids_trio, of "\<lambda>xs. xs ! 1"] len by simp
  have ms: "matches trio = [played_180_150, fixture ''M-2'' teamA teamC]"
    "teams trio = [teamA, teamB, teamC]"
    by (simp_all add: trio_def)
  have st: "map status (matches trio) = [COMPLETED, NOT_STARTED]"
    by (simp add: ms played_180_150_def result_def fixture_def)
  have un: "\<forall>m\<in>set (matches trio). status m = COMPLETED \<longrightarrow>
              team1Id m \<noteq> sid ?s \<and> team2Id m \<noteq> sid ?s"
    unfolding sid ms
    by (simp add: played_180_150_def result_def fixture_def teamA_def teamB_def teamC_def)
  have c: "teamC \<in> set (teams trio)" by (simp add: ms)
  have ov: "oversFaced ?s = 0" "oversBowled ?s = 0"
    using arg_cong[OF overs_trio, of "\<lambda>xs. xs ! 1"] len by simp_all
  from every_team_once_unplayed_zero[of trio "[1700000000000, 1700000000000, 1700000000000]"]
    mem un c sids_trio st ids_trio ov
  show ?thesis by blast
qed

section \<open>Tie badge\<close>

lemma length_tieFlags: "length (tieFlags sts) = min 4 (length sts)"
  by (simp add: tieFlags_def min.commute)

lemma tieFlags_nth:
  assumes "i < length (tieFlags sts)"
  shows "tieFlags sts ! i \<longleftrightarrow>
           (\<exists>j<length sts. j \<noteq> i \<and> actualPoints (sts ! j) = actualPoints (sts ! i))"
proof -
  from assms have i: "i < length (take 4 sts)" "i < length sts" "i < 4"
    by (simp_all add: length_tieFlags)
  have e: "enumerate 0 (take 4 sts) ! i = (i, sts ! i)"
    using i by (simp add: nth_enumerate_eq)
  have "tieFlags sts ! i =
          list_ex (\<lambda>(idx, other). idx \<noteq> i \<and> actualPoints other = actualPoints (sts ! i))
            (enumerate 0 sts)"
    using i by (simp add: tieFlags_def e)
  also have "\<dots> \<longleftrightarrow> (\<exists>j<length sts. j \<noteq> i \<and> actualPoints (sts ! j) = actualPoints (sts ! i))"
    by (auto simp: list_ex_iff in_set_enumerate_eq)
  finally show ?thesis .
qed

lemma tie_flag_row:
  assumes "i < min 4 (length (standings T))"
  shows "tieFlags (standings T) ! i \<longleftrightarrow>
           (\<exists>other\<in>set (standings T). sid other \<noteq> sid (standings T ! i) \<and>
              actualPoints other = actualPoints (standings T ! i))"
proof -
  let ?sts = "standings T"
  from assms have i: "i < length ?sts" and fl: "i < length (tieFlags ?sts)"
    by (simp_all add: length_tieFlags)
  have d: "distinct (map sid ?sts)" by (rule distinct_sids_standings)
  have idx: "sid (?sts ! j) = sid (?sts ! i) \<longleftrightarrow> j = i" if "j < length ?sts" for j
    using d that i by (metis length_map nth_eq_iff_index_eq nth_map)
  show ?thesis
    unfolding tieFlags_nth[OF fl]
  proof
    assume "\<exists>j<length ?sts. j \<noteq> i \<and> actualPoints (?sts ! j) = actualPoints (?sts ! i)"
    then obtain j where j: "j < length ?sts" "j \<noteq> i"
      "actualPoints (?sts ! j) = actualPoints (?sts ! i)" by blast
    then have "?sts ! j \<in> set ?sts" "sid (?sts ! j) \<noteq> sid (?sts ! i)"
      using idx by simp_all
    with j(3) show "\<exists>other\<in>set ?sts. sid other \<noteq> sid (?sts ! i) \<and>
              actualPoints other = actualPoints (?sts ! i)" by blast
  next
    assume "\<exists>other\<in>set ?sts. sid other \<noteq> sid (?sts ! i) \<and>
              actualPoints other = actualPoints (?sts ! i)"
    then obtain other where o: "other \<in> set ?sts" "sid other \<noteq> sid (?sts ! i)"
      "actualPoints other = actualPoints (?sts ! i)" by blast
    then obtain j where j: "j < length ?sts" "?sts ! j = other"
      by (auto simp: in_set_conv_nth)
    then have "j \<noteq> i" using o(2) by auto
    with j o(3) show "\<exists>j<length ?sts. j \<noteq> i \<and> actualPoints (?sts ! j) = actualPoints (?sts ! i)"
      by blast
  qed
qed

lemma tie_flagged_nth:
  "tie_flagged T k \<longleftrightarrow>
     (\<exists>i<min 4 (length (standings T)). sid (standings T ! i) = k \<and> tieFlags (standings T) ! i)"
proof -
  have m: "min (length (standings T)) (length (tieFlags (standings T)))
             = min 4 (length (standings T))"
    by (simp add: length_tieFlags)
  show ?thesis
    unfolding tie_flagged_def list_ex_iff set_zip m by auto
qed

text \<open>
  Claim C8, as amended. The TIE badge is drawn in one place, the leaderboard snapshot,
  which shows the first four rows of the standings; the points table draws none. A team
  carries the badge exactly when its row is among the first four and some other team of
  the standings, shown or not, has the same points; net run rate and scoring rate play no
  part.
\<close>

theorem tie_flag_points_only:
  "tie_flagged T k \<longleftrightarrow>
     (\<exists>i<min 4 (length (standings T)). sid (standings T ! i) = k \<and>
        (\<exists>other\<in>set (standings T). sid other \<noteq> k \<and>
           actualPoints other = actualPoints (standings T ! i)))"
proof -
  have "(sid (standings T ! i) = k \<and> tieFlags (standings T) ! i) \<longleftrightarrow>
        (sid (standings T ! i) = k \<and>
           (\<exists>other\<in>set (standings T). sid other \<noteq> k \<and>
              actualPoints other = actualPoints (standings T ! i)))"
    if "i < min 4 (length (standings T))" for i
    using tie_flag_row[OF that] by auto
  then show ?thesis unfolding tie_flagged_nth by blast
qed

text \<open>
  The claim as stated fails from the fifth row on. In a new tournament of eight teams all
  teams have 0 points; the four rows of the snapshot carry the badge, and the teams E to H,
  which share their points with seven others, carry none.
\<close>

theorem tie_flag_counterexample:
  "map (\<lambda>s. (sname s, actualPoints s)) (standings eight)
     = [(''A'', 0), (''B'', 0), (''C'', 0), (''D'', 0), (''E'', 0), (''F'', 0), (''G'', 0),
        (''H'', 0)] \<and>
   tieFlags (standings eight) = [True, True, True, True] \<and>
   map (tie_flagged eight) (map sid (standings eight))
     = [True, True, True, True, False, False, False, False]"
  by code_simp

text \<open>A and B have two points each and net run rates 0.25 and -0.25: both are flagged.\<close>

lemma standings_one_all:
  "map (\<lambda>s. (sid s, actualPoints s, nrr s)) (standings one_all)
     = [(team_id teamA, 2, 1 / 4), (team_id teamB, 2, - (1 / 4))]"
  by code_simp

theorem tie_flag_points_only_witness:
  "map (\<lambda>s. (sid s, actualPoints s, nrr s)) (standings one_all)
     = [(team_id teamA, 2, 1 / 4), (team_id teamB, 2, - (1 / 4))] \<and>
   tie_flagged one_all (team_id teamA) \<and> tie_flagged one_all (team_id teamB)"
proof -
  let ?sts = "standings one_all"
  have len: "length ?sts = 2"
    using arg_cong[OF standings_one_all, of length] by simp
  then obtain a b where ab: "?sts = [a, b]"
    by (auto simp: length_Suc_conv numeral_2_eq_2)
  from standings_one_all have f: "sid a = team_id teamA" "sid b = team_id teamB"
    "actualPoints a = 2" "actualPoints b = 2"
    unfolding ab by simp_all
  have ne: "team_id teamA \<noteq> team_id teamB" by (simp add: teamA_def teamB_def)
  have "\<exists>i<min 4 (length ?sts). sid (?sts ! i) = team_id teamA \<and>
          (\<exists>other\<in>set ?sts. sid other \<noteq> team_id teamA \<and>
             actualPoints other = actualPoints (?sts ! i))"
    unfolding ab using f ne by (intro exI[of _ 0]) auto
  then have "tie_flagged one_all (team_id teamA)"
    using tie_flag_points_only[of one_all "team_id teamA"] by simp
  moreover have "\<exists>i<min 4 (length ?sts). sid (?sts ! i) = team_id teamB \<and>
          (\<exists>other\<in>set ?sts. sid other \<noteq> team_id teamB \<and>
             actualPoints other = actualPoints (?sts ! i))"
    unfolding ab using f ne by (intro exI[of _ 1]) auto
  then have "tie_flagged one_all (team_id teamB)"
    using tie_flag_points_only[of one_all "team_id teamB"] by simp
  ultimately show ?thesis using standings_one_all by simp
qed

section \<open>Ranking\<close>

lemma sids_plain:
  assumes "\<forall>t\<in>set (teams T). \<not> is_array_index (team_id t) \<and> team_id t \<noteq> ''__proto__''"
    and "distinct (map team_id (teams T))"
  shows "map sid (map snd (standingsMap T)) = map team_id (teams T)"
  unfolding sids_standingsMap init_stats_plain[OF assms] by (simp add: comp_def)

lemma sids_form:
  assumes "map team_id (teams T) = form_ids nows"
  shows "map sid (map snd (standingsMap T)) = map team_id (teams T)"
  unfolding sids_standingsMap init_stats_form[OF assms] by (simp add: comp_def)

text \<open>
  Claim C7. The standings are a rearrangement of the values of the standings map, sorted
  descending by points, then net run rate, then scoring rate; rows equal on all three keep
  the order they have among the values of the map. For a team list with the ids of the
  creation form, the values of the map are in the order of the team list.
\<close>

theorem ranking_stable_lexicographic:
  "mset (standings T) = mset (map snd (standingsMap T)) \<and>
   sorted_wrt rank_ge (standings T) \<and>
   (\<forall>k. filter (\<lambda>s. rank_key s = k) (standings T)
          = filter (\<lambda>s. rank_key s = k) (map snd (standingsMap T))) \<and>
   (map team_id (teams T) = form_ids nows
      \<longrightarrow> map sid (map snd (standingsMap T)) = map team_id (teams T))"
  using mset_standings sorted_standings stable_standings sids_form by blast

lemma ids_one_all: "map team_id (teams one_all) = form_ids [1700000000000, 1700000000000]"
  by code_simp

lemma keys_one_all:
  "map rank_key (standings one_all) = [(2, 1 / 4, 8), (2, - (1 / 4), 31 / 4)]"
  by code_simp

theorem ranking_stable_lexicographic_witness:
  "map team_id (teams one_all) = form_ids [1700000000000, 1700000000000] \<and>
   map sid (map snd (standingsMap one_all)) = [team_id teamA, team_id teamB] \<and>
   map rank_key (standings one_all) = [(2, 1 / 4, 8), (2, - (1 / 4), 31 / 4)] \<and>
   sorted_wrt rank_ge (standings one_all) \<and>
   mset (standings one_all) = mset (map snd (standingsMap one_all))"
proof -
  have t: "teams one_all = [teamA, teamB]" by (simp add: one_all_def league_def)
  from ranking_stable_lexicographic[of one_all "[1700000000000, 1700000000000]"]
    ids_one_all keys_one_all t
  show ?thesis by simp
qed

section \<open>The result classifier\<close>






section \<open>Overs volumes and the hundred-ball format\<close>

text \<open>
  Claim C5. A side that lost 10 wickets is credited with the full overs limit of the
  match, whatever overs and balls were recorded for it, in the traditional format (the
  parsed overs setting) and in the hundred-ball format (100).
\<close>

theorem all_out_full_allotment:
  "(t1Wickets m = Some 10 \<longrightarrow> t1VolFaced T m = maxOvers T) \<and>
   (t2Wickets m = Some 10 \<longrightarrow> t2VolFaced T m = maxOvers T)"
  by (simp add: t1VolFaced_def t2VolFaced_def maxOvers_def)

lemma maxOvers_20: "maxOvers (league ''20'' w d l ms) = 20"
proof -
  have "parseFloat ''20'' = Some 20" by code_simp
  then show ?thesis by (simp add: maxOvers_def isHundred_def league_def)
qed

theorem all_out_full_allotment_witness:
  "t2Wickets played_180_150 = Some 10 \<and> t2OversWhole played_180_150 = Some 18 \<and>
   t2Balls played_180_150 = Some 3 \<and>
   t2VolFaced (league ''20'' 2 1 0 [played_180_150]) played_180_150 = 20"
proof -
  have w: "t2Wickets played_180_150 = Some 10" "t2OversWhole played_180_150 = Some 18"
    "t2Balls played_180_150 = Some 3"
    by (simp_all add: played_180_150_def result_def)
  from all_out_full_allotment[of played_180_150 "league ''20'' 2 1 0 [played_180_150]"] w(1)
  have "t2VolFaced (league ''20'' 2 1 0 [played_180_150]) played_180_150
          = maxOvers (league ''20'' 2 1 0 [played_180_150])" by simp
  with w show ?thesis by (simp add: maxOvers_20)
qed

lemma apply_match_points:
  assumes "map_of st (team1Id m) \<noteq> None" "map_of st (team2Id m) \<noteq> None"
    and "team1Id m \<noteq> team2Id m"
  shows "map (\<lambda>(k, s). (k, actualPoints s)) (apply_match T m st) =
         map (\<lambda>(k, s). (k,
                if k = team1Id m then
                  rd (actualPoints s +
                    (if resultType m = Some T1_WIN then win (pointsConfig T)
                     else if resultType m = Some T2_WIN then loss (pointsConfig T)
                     else draw (pointsConfig T)))
                else if k = team2Id m then
                  rd (actualPoints s +
                    (if resultType m = Some T2_WIN then win (pointsConfig T)
                     else if resultType m = Some T1_WIN then loss (pointsConfig T)
                     else draw (pointsConfig T)))
                else actualPoints s)) st"
proof -
  have a: "apply_match T m st = exec (match_stmts T m) st"
    using assms by (auto simp: apply_match_def)
  have p: "actualPoints (run (updaters_for k (match_stmts T m)) s) =
                (if k = team1Id m then
                  rd (actualPoints s +
                    (if resultType m = Some T1_WIN then win (pointsConfig T)
                     else if resultType m = Some T2_WIN then loss (pointsConfig T)
                     else draw (pointsConfig T)))
                else if k = team2Id m then
                  rd (actualPoints s +
                    (if resultType m = Some T2_WIN then win (pointsConfig T)
                     else if resultType m = Some T1_WIN then loss (pointsConfig T)
                     else draw (pointsConfig T)))
                else actualPoints s)" for k s
    using assms(3) by (simp add: points_match points_for_def)
  show ?thesis
    unfolding a exec_entries by (simp add: p case_prod_beta)
qed

lemma rd_add_small:
  assumes "is_whole x" "\<bar>x\<bar> + 4 < 2 ^ 53" "c \<in> {0, 2, 4}"
  shows "rd (x + c) = x + c"
proof (rule rd_whole)
  have "is_whole c" using assms(3) by (auto simp: is_whole_def)
  with assms(1) show "is_whole (x + c)" by (rule is_whole_add)
  have "\<bar>c\<bar> \<le> 4" using assms(3) by auto
  then show "\<bar>x + c\<bar> < 2 ^ 53" using assms(2) by linarith
qed

text \<open>
  Claim C6. In the hundred-ball format the volume of a side that is not all out is its
  recorded ball count, taken as it is, and the points are 4 for a win, 2 for a draw and 0
  for a loss, whatever points are configured: a match between two teams of the table adds
  4 to the winner's points and 0 to the loser's, and 2 to both when no side has won. The
  additions are additions of doubles; on points that are whole numbers below \<open>2^53 - 4\<close>
  they are exact.
\<close>

theorem ball_count_regime:
  assumes "isHundred T"
  shows "(t1Wickets m \<noteq> Some 10 \<longrightarrow> t1VolFaced T m = of_int (or0 (t1OversWhole m))) \<and>
         (t2Wickets m \<noteq> Some 10 \<longrightarrow> t2VolFaced T m = of_int (or0 (t2OversWhole m))) \<and>
         pointsConfig T = \<lparr> win = 4, draw = 2, loss = 0 \<rparr> \<and>
         (map_of st (team1Id m) \<noteq> None \<and> map_of st (team2Id m) \<noteq> None \<and>
          team1Id m \<noteq> team2Id m \<longrightarrow>
            map (\<lambda>(k, s). (k, actualPoints s)) (apply_match T m st) =
            map (\<lambda>(k, s). (k,
                   if k = team1Id m then
                     rd (actualPoints s +
                       (if resultType m = Some T1_WIN then 4
                        else if resultType m = Some T2_WIN then 0 else 2))
                   else if k = team2Id m then
                     rd (actualPoints s +
                       (if resultType m = Some T2_WIN then 4
                        else if resultType m = Some T1_WIN then 0 else 2))
                   else actualPoints s)) st) \<and>
         (map_of st (team1Id m) \<noteq> None \<and> map_of st (team2Id m) \<noteq> None \<and>
          team1Id m \<noteq> team2Id m \<and>
          (\<forall>(k, s)\<in>set st. is_whole (actualPoints s) \<and> \<bar>actualPoints s\<bar> + 4 < 2 ^ 53) \<longrightarrow>
            map (\<lambda>(k, s). (k, actualPoints s)) (apply_match T m st) =
            map (\<lambda>(k, s). (k, actualPoints s +
                   (if k = team1Id m then
                      (if resultType m = Some T1_WIN then 4
                       else if resultType m = Some T2_WIN then 0 else 2)
                    else if k = team2Id m then
                      (if resultType m = Some T2_WIN then 4
                       else if resultType m = Some T1_WIN then 0 else 2)
                    else 0))) st)"
proof -
  have pc: "pointsConfig T = \<lparr> win = 4, draw = 2, loss = 0 \<rparr>"
    using assms by (simp add: pointsConfig_def)
  have v: "t1Wickets m \<noteq> Some 10 \<longrightarrow> t1VolFaced T m = of_int (or0 (t1OversWhole m))"
    "t2Wickets m \<noteq> Some 10 \<longrightarrow> t2VolFaced T m = of_int (or0 (t2OversWhole m))"
    using assms by (simp_all add: t1VolFaced_def t2VolFaced_def)
  have w4: "win (pointsConfig T) = 4" "draw (pointsConfig T) = 2" "loss (pointsConfig T) = 0"
    by (simp_all add: pc)
  have "map (\<lambda>(k, s). (k, actualPoints s)) (apply_match T m st) =
            map (\<lambda>(k, s). (k,
                   if k = team1Id m then
                     rd (actualPoints s +
                       (if resultType m = Some T1_WIN then 4
                        else if resultType m = Some T2_WIN then 0 else 2))
                   else if k = team2Id m then
                     rd (actualPoints s +
                       (if resultType m = Some T2_WIN then 4
                        else if resultType m = Some T1_WIN then 0 else 2))
                   else actualPoints s)) st"
    if "map_of st (team1Id m) \<noteq> None" "map_of st (team2Id m) \<noteq> None"
      "team1Id m \<noteq> team2Id m"
    using apply_match_points[OF that, of T] unfolding w4 .
  note rounded = this
  have "map (\<lambda>(k, s). (k, actualPoints s)) (apply_match T m st) =
            map (\<lambda>(k, s). (k, actualPoints s +
                   (if k = team1Id m then
                      (if resultType m = Some T1_WIN then 4
                       else if resultType m = Some T2_WIN then 0 else 2)
                    else if k = team2Id m then
                      (if resultType m = Some T2_WIN then 4
                       else if resultType m = Some T1_WIN then 0 else 2)
                    else 0))) st"
    if g: "map_of st (team1Id m) \<noteq> None" "map_of st (team2Id m) \<noteq> None"
      "team1Id m \<noteq> team2Id m"
      and whole: "\<forall>(k, s)\<in>set st. is_whole (actualPoints s) \<and> \<bar>actualPoints s\<bar> + 4 < 2 ^ 53"
  proof -
    have r: "rd (actualPoints s + c) = actualPoints s + c"
      if "(k, s) \<in> set st" "c \<in> {0, 2, 4}" for k s c
      using whole that by (intro rd_add_small) auto
    have r0: "rd (actualPoints s) = actualPoints s" if "(k, s) \<in> set st" for k s
      using r[OF that, of 0] by simp
    show ?thesis
      unfolding rounded[OF g] by (intro map_cong refl) (auto simp: r r0)
  qed
  with v pc rounded show ?thesis by blast
qed

lemma plain_ids:
  "\<not> is_array_index (team_id teamA) \<and> team_id teamA \<noteq> ''__proto__''"
  "\<not> is_array_index (team_id teamB) \<and> team_id teamB \<noteq> ''__proto__''"
  by code_simp+

lemma standings_hundred:
  "map (\<lambda>s. (sname s, actualPoints s, oversFaced s))
     (standings (league ''100 Balls'' 7 3 1 [hundred_chase]))
   = [(''A'', 4, 85), (''B'', 0, 100)]"
  by code_simp

lemma hundred_guard:
  "map_of (init_stats [teamA, teamB]) (team1Id hundred_chase) \<noteq> None"
  "map_of (init_stats [teamA, teamB]) (team2Id hundred_chase) \<noteq> None"
  "team1Id hundred_chase \<noteq> team2Id hundred_chase"
  "resultType hundred_chase = Some T2_WIN"
  "team1Id hundred_chase = team_id teamB" "team2Id hundred_chase = team_id teamA"
  "map (\<lambda>(k, s). (k, actualPoints s)) (init_stats [teamA, teamB])
     = [(team_id teamA, 0), (team_id teamB, 0)]"
  "list_all (\<lambda>(k, s). is_whole (actualPoints s) \<and> \<bar>actualPoints s\<bar> + 4 < 2 ^ 53)
     (init_stats [teamA, teamB])"
  by code_simp+

theorem ball_count_regime_witness:
  "isHundred (league ''100 Balls'' 7 3 1 [hundred_chase]) \<and>
   t2Wickets hundred_chase = Some 3 \<and> t2OversWhole hundred_chase = Some 85 \<and>
   t2VolFaced (league ''100 Balls'' 7 3 1 [hundred_chase]) hundred_chase = 85 \<and>
   pointsConfig (league ''100 Balls'' 7 3 1 [hundred_chase]) = \<lparr> win = 4, draw = 2, loss = 0 \<rparr> \<and>
   list_all (\<lambda>(k, s). is_whole (actualPoints s) \<and> \<bar>actualPoints s\<bar> + 4 < 2 ^ 53)
     (init_stats [teamA, teamB]) \<and>
   map (\<lambda>(k, s). (k, actualPoints s))
     (apply_match (league ''100 Balls'' 7 3 1 [hundred_chase]) hundred_chase
        (init_stats [teamA, teamB]))
     = [(team_id teamA, 4), (team_id teamB, 0)] \<and>
   map (\<lambda>s. (sname s, actualPoints s, oversFaced s))
     (standings (league ''100 Balls'' 7 3 1 [hundred_chase]))
   = [(''A'', 4, 85), (''B'', 0, 100)]"
proof -
  let ?T = "league ''100 Balls'' 7 3 1 [hundred_chase]"
  have h: "isHundred ?T"
    by (simp add: isHundred_def league_def)
  have w: "t2Wickets hundred_chase = Some 3" "t2OversWhole hundred_chase = Some 85"
    by (simp_all add: hundred_chase_def result_def)
  have ne: "team_id teamA \<noteq> team_id teamB" by (simp add: teamA_def teamB_def)
  from ball_count_regime[OF h, of hundred_chase "init_stats [teamA, teamB]"] hundred_guard(1-3)
  have c: "t2VolFaced ?T hundred_chase = of_int (or0 (t2OversWhole hundred_chase))"
    "pointsConfig ?T = \<lparr> win = 4, draw = 2, loss = 0 \<rparr>"
    "map (\<lambda>(k, s). (k, actualPoints s)) (apply_match ?T hundred_chase (init_stats [teamA, teamB])) =
            map (\<lambda>(k, s). (k,
                   if k = team1Id hundred_chase then
                     rd (actualPoints s +
                       (if resultType hundred_chase = Some T1_WIN then 4
                        else if resultType hundred_chase = Some T2_WIN then 0 else 2))
                   else if k = team2Id hundred_chase then
                     rd (actualPoints s +
                       (if resultType hundred_chase = Some T2_WIN then 4
                        else if resultType hundred_chase = Some T1_WIN then 0 else 2))
                   else actualPoints s)) (init_stats [teamA, teamB])"
    using w by simp_all
  have i: "init_stats [teamA, teamB] = map (\<lambda>t. (team_id t, init_standing t)) [teamA, teamB]"
    using plain_ids ne by (intro init_stats_plain) simp_all
  have r4: "rd 4 = 4" using rd_of_int[of 4] by simp
  note c(3)
  also have "map (\<lambda>(k, s). (k,
                   if k = team1Id hundred_chase then
                     rd (actualPoints s +
                       (if resultType hundred_chase = Some T1_WIN then 4
                        else if resultType hundred_chase = Some T2_WIN then 0 else 2))
                   else if k = team2Id hundred_chase then
                     rd (actualPoints s +
                       (if resultType hundred_chase = Some T2_WIN then 4
                        else if resultType hundred_chase = Some T1_WIN then 0 else 2))
                   else actualPoints s)) (init_stats [teamA, teamB])
           = [(team_id teamA, 4), (team_id teamB, 0)]"
    unfolding hundred_guard(4-6) i using ne by (simp add: init_standing_def r4)
  finally have "map (\<lambda>(k, s). (k, actualPoints s))
                  (apply_match ?T hundred_chase (init_stats [teamA, teamB]))
                = [(team_id teamA, 4), (team_id teamB, 0)]" .
  with h w c(1,2) standings_hundred hundred_guard(8) show ?thesis by (simp add: or0_def)
qed

section \<open>The two-team scenario\<close>

text \<open>
  Claim C1. Teams A and B, points 2/1/0, twenty overs, one match saved from the result
  form with A 180/6 in 20.0 overs and B 150/10 in 18.3 overs: the saved match is a
  first-batting win with winner A; both sides are credited with 20 overs (B by the all-out
  rule); A has 2 points and net run rate 1.5, B has 0 points and net run rate -1.5, and A
  ranks first.
\<close>

theorem scenario_180_150:
  "map_option (\<lambda>T'. (map (\<lambda>m. (status m, resultType m, winnerId m)) (matches T'),
                      map (\<lambda>s. (sname s, oversFaced s, actualPoints s, nrr s)) (standings T')))
     (handleSaveResult (league ''20'' 2 1 0 [fixture ''M-1'' teamA teamB]) form_180_150 ''M-1'')
   = Some ([(COMPLETED, Some T1_WIN, Some (team_id teamA))],
           [(''A'', 20, 2, 3 / 2), (''B'', 20, 0, - (3 / 2))])"
  by code_simp

section \<open>Matches lost\<close>

lemma matchesLost_exact_part [simp]: "matchesLost (exact_part s) = matchesLost s"
  by (simp add: exact_part_def)

lemma matchesLost_add_totals [simp]: "matchesLost (add_totals d s) = matchesLost s"
  by (cases d) (simp add: add_totals_def)

lemma additive_matchesLost: "additive f \<Longrightarrow> matchesLost (f s) = matchesLost s"
proof -
  assume "additive f"
  then obtain d where "\<And>s. exact_part (f s) = add_totals d (exact_part s)"
    by (auto simp: additive_def)
  then have "matchesLost (exact_part (f s)) = matchesLost (add_totals d (exact_part s))"
    by simp
  then show ?thesis by simp
qed

lemma run_matchesLost: "\<forall>f\<in>set fs. additive f \<Longrightarrow> matchesLost (run fs s) = matchesLost s"
  by (induction fs arbitrary: s) (auto simp: additive_matchesLost)

lemma matchesLost_stays_zero: "s \<in> set (standings T) \<Longrightarrow> matchesLost s = 0"
proof -
  assume "s \<in> set (standings T)"
  from standings_entry[OF this] obtain t where
    "s = rates (run (updaters_for (team_id t) (all_stmts T)) (init_standing t))" by blast
  then show ?thesis
    by (simp add: rates_def Let_def run_matchesLost updaters_additive init_standing_def)
qed

text \<open>
  Claim C2. The loop counts a match for both teams and a win for the winner, and has no
  statement for the loser: after A has beaten B, the standings show one match played for
  each, one win for A, and no loss for B. The matches-lost column stays 0 in every
  tournament.
\<close>

theorem losses_never_counted:
  "map (\<lambda>s. (sname s, matchesPlayed s, matchesWon s, matchesLost s))
     (standings (league ''20'' 2 1 0 [played_180_150]))
   = [(''A'', 1, 1, 0), (''B'', 1, 0, 0)]"
  by code_simp

section \<open>Configured points of zero\<close>

lemma configured_points_traditional:
  "\<not> isHundred T \<Longrightarrow>
     pointsConfig T =
       \<lparr> win = (if pointsForWin (config T) = 0 then 2 else pointsForWin (config T)),
         draw = (if pointsForDraw (config T) = 0 then 1 else pointsForDraw (config T)),
         loss = pointsForLoss (config T) \<rparr>"
  by (simp add: pointsConfig_def or_default_def)

text \<open>
  Claim C3. In the traditional format nonzero configured points are used as they are, but
  a configured 0 for a win is replaced by 2 and a configured 0 for a draw by 1: with all
  three values configured as 0, the winner of a match still gets 2 points.
\<close>

theorem zero_points_replaced:
  "pointsConfig (league ''20'' 0 0 0 [played_180_150]) = \<lparr> win = 2, draw = 1, loss = 0 \<rparr> \<and>
   map (\<lambda>s. (sname s, actualPoints s)) (standings (league ''20'' 0 0 0 [played_180_150]))
     = [(''A'', 2), (''B'', 0)]"
  by code_simp

end
